theory Spec2Isabelle
  imports Main "HOL-Library.AList"
begin

section \<open>Data model of the collaboration server\<close>

text \<open>
  The development follows \<^verbatim>\<open>collab-editor/server/socket-server.js\<close> and the
  \<^verbatim>\<open>AIService\<close> class that the same file carries. Socket ids, document ids and
  socket.io room names are JavaScript strings; a document id is used as a room name, and
  every socket is a member of the room named by its own id. Arbitrary JSON values that the
  server only passes through (cursor position, selection) are kept as their text.
  Timestamps (\<^verbatim>\<open>Date.now()\<close>) are integers in milliseconds.

  The \<^verbatim>\<open>version\<close> counter is a JavaScript number that starts at 1 and only ever
  changes by \<^verbatim>\<open>+= 1\<close>. Up to \<open>2^53\<close> that is the successor; at \<open>2^53\<close> the sum rounds
  back to \<open>2^53\<close> and the counter stays there. Larger values do not arise.
\<close>

type_synonym sid = string
type_synonym docid = string
type_synonym json = string

record doc_state =
  content :: string
  lastModified :: int
  version :: nat

definition js_inc :: "nat \<Rightarrow> nat" where
  "js_inc v = (if v < 2 ^ 53 then v + 1 else v)"

record user_meta =
  username :: string
  color :: string
  documentId :: docid

record rate_limit =
  count :: nat
  resetTime :: int

record ai_service =
  rateLimits :: "sid \<rightharpoonup> rate_limit"

definition MAX_REQUESTS_PER_MINUTE :: nat where
  "MAX_REQUESTS_PER_MINUTE = 10"

text \<open>
  The module-level state. A cached document state is a JavaScript object that handlers
  keep a reference to across their \<^verbatim>\<open>await\<close>s and read again afterwards, so the objects
  live in a store of their own: \<open>documentStates\<close> holds every state object ever created,
  in order of creation, a reference is an index into it, and \<open>documentCache\<close> maps a
  document id to the reference it holds. \<open>documentUsers\<close> is a JavaScript \<^verbatim>\<open>Map\<close> whose
  entries the disconnect handler visits in insertion order, so it is an association list;
  a JavaScript \<^verbatim>\<open>Set\<close> of socket ids is a list in insertion order. The other maps are
  only read and written by key. \<open>aiService\<close> is \<open>None\<close> when no API key is configured.
  \<open>socketRooms\<close> is socket.io's own bookkeeping (\<^verbatim>\<open>socket.rooms\<close> of every connected
  socket); a socket that is not connected has no entry.
\<close>

record server =
  documentCache :: "docid \<rightharpoonup> nat"
  documentStates :: "doc_state list"
  documentUsers :: "(docid \<times> sid list) list"
  userMetadata :: "sid \<rightharpoonup> user_meta"
  aiService :: "ai_service option"
  socketRooms :: "sid \<rightharpoonup> string list"

definition deref :: "server \<Rightarrow> nat \<Rightarrow> doc_state option" where
  "deref srv ref =
     (if ref < length (documentStates srv) then Some (documentStates srv ! ref) else None)"


text \<open>
  What a step of the process reads from outside when it runs: the clock, and the answer of
  the persistent store to \<^verbatim>\<open>select * from documents where id = ... (single)\<close> that
  arrives at that moment. The answer is \<open>None\<close> when the query reports an error (no such
  row, or the store is unreachable), \<open>Some None\<close> for a row whose content is NULL and
  \<open>Some (Some c)\<close> otherwise.
\<close>

record env =
  now :: int
  documents :: "docid \<Rightarrow> string option option"

text \<open>
  The payload of \<^verbatim>\<open>ai-generate\<close>, as far as the server looks at it. \<open>code\<close> is
  meant to be text; the server calls \<^verbatim>\<open>split\<close> on whatever arrives, so a value that is
  missing, null or of another type is told apart. The other fields are missing (\<open>None\<close>)
  or have the type the client gives them; a cursor position is an object with a line
  number.
\<close>

datatype js_arg = Missing | Str string | NullArg | OtherArg

record ai_request =
  code :: js_arg
  language :: "string option"
  cursorPosition :: "int option"
  userPrompt :: "string option"
  action :: "string option"

text \<open>
  What the generative backend will do for one request: the chunks its stream yields, and
  the error message with which the stream then fails, if it fails.
\<close>

record backend_response =
  chunks :: "string list"
  failure :: "string option"

datatype message =
    DocumentState string nat
  | ReceiveChanges string nat sid
  | ErrorMsg string
  | UserCountUpdate nat
  | UsersUpdate "(sid \<times> string \<times> string) list"
  | CursorUpdate sid string string json json
  | CursorRemove sid
  | AiChunk string
  | AiComplete
  | AiError string

text \<open>
  \<open>ToSocket s\<close> is \<^verbatim>\<open>socket.emit\<close> on socket \<open>s\<close>, \<open>ToRoom r\<close> is
  \<^verbatim>\<open>io.to(r).emit\<close> and \<open>ToRoomExcept r s\<close> is \<^verbatim>\<open>socket.to(r).emit\<close> on socket
  \<open>s\<close>.
\<close>

datatype target = ToSocket sid | ToRoom string | ToRoomExcept string sid

text \<open>
  The observable effects of a step, in program order: an emitted event, the
  fire-and-forget request to the store to persist a document's content, the call of the
  generative backend with a prompt, and an exception that leaves an \<^verbatim>\<open>async\<close> handler
  with nobody to catch it.
\<close>

datatype effect =
    Emit target message
  | Persist docid string
  | GenerateContentStream string
  | UnhandledRejection string

text \<open>
  The suspended rest of an \<^verbatim>\<open>ai-generate\<close> handler that waits in its \<^verbatim>\<open>for await\<close>
  loop: the socket it serves, the chunks still to come, and the error with which the
  generator will throw after them, if any.
\<close>

record generation =
  gen_socket :: sid
  gen_chunks :: "string list"
  gen_failure :: "string option"

text \<open>
  The suspended rest of a document handler. \<open>Fetching d k\<close> is a call of
  \<^verbatim>\<open>getDocumentState(d)\<close> by handler \<open>k\<close> that waits for the store; \<open>Returned k r\<close> is
  handler \<open>k\<close> waiting at its \<^verbatim>\<open>await getDocumentState(...)\<close> for the value \<open>r\<close> that
  the call has returned, a reference or null; \<open>Updated s d ref ok\<close> is the
  \<^verbatim>\<open>send-changes\<close> handler of socket \<open>s\<close> waiting at
  \<^verbatim>\<open>await updateDocumentState(...)\<close> for the value \<open>ok\<close>, with \<open>ref\<close> in its variable
  \<^verbatim>\<open>state\<close>.
\<close>

datatype caller = JoinCaller sid docid | SendCaller sid docid string | SyncCaller sid docid

datatype suspended =
    Fetching docid caller
  | Returned caller "nat option"
  | Updated sid docid nat bool

section \<open>JavaScript sets and socket.io rooms\<close>

definition set_add :: "'a \<Rightarrow> 'a list \<Rightarrow> 'a list" where
  "set_add x xs = (if x \<in> set xs then xs else xs @ [x])"

definition set_delete :: "'a \<Rightarrow> 'a list \<Rightarrow> 'a list" where
  "set_delete x xs = removeAll x xs"

definition socket_join :: "sid \<Rightarrow> string \<Rightarrow> server \<Rightarrow> server" where
  "socket_join socketId room srv =
     (case socketRooms srv socketId of
        None \<Rightarrow> srv
      | Some rooms \<Rightarrow> srv\<lparr>socketRooms := (socketRooms srv)(socketId \<mapsto> set_add room rooms)\<rparr>)"

definition socket_leave :: "sid \<Rightarrow> string \<Rightarrow> server \<Rightarrow> server" where
  "socket_leave socketId room srv =
     (case socketRooms srv socketId of
        None \<Rightarrow> srv
      | Some rooms \<Rightarrow> srv\<lparr>socketRooms := (socketRooms srv)(socketId \<mapsto> set_delete room rooms)\<rparr>)"

text \<open>
  Who receives an emitted event, given socket.io's bookkeeping at the time of the emit.
  socket.io writes a packet only to a socket whose connection is open.
\<close>

fun receives :: "server \<Rightarrow> target \<Rightarrow> sid \<Rightarrow> bool" where
  "receives srv (ToSocket s) r = (r = s \<and> socketRooms srv s \<noteq> None)"
| "receives srv (ToRoom room) r =
     (case socketRooms srv r of None \<Rightarrow> False | Some rooms \<Rightarrow> room \<in> set rooms)"
| "receives srv (ToRoomExcept room s) r =
     (r \<noteq> s \<and> (case socketRooms srv r of None \<Rightarrow> False | Some rooms \<Rightarrow> room \<in> set rooms))"

section \<open>Document state cache\<close>

text \<open>
  \<^verbatim>\<open>getDocumentState\<close> runs in two parts. The call looks into the cache and, on a hit,
  returns the cached reference; on a miss it asks the store and waits. When the store has
  answered, the second part runs: on an error it returns null, otherwise it creates a state
  object with version 1 and puts it into the cache, whatever the cache holds by then.
  The caller gets the returned value only when it is resumed in its turn.
\<close>

definition getDocumentState :: "server \<Rightarrow> docid \<Rightarrow> caller \<Rightarrow> suspended" where
  "getDocumentState srv docId k =
     (case documentCache srv docId of
        Some ref \<Rightarrow> Returned k (Some ref)
      | None \<Rightarrow> Fetching docId k)"

definition getDocumentState_resume :: "env \<Rightarrow> server \<Rightarrow> docid \<Rightarrow> nat option \<times> server" where
  "getDocumentState_resume e srv docId =
     (case documents e docId of
        None \<Rightarrow> (None, srv)
      | Some dataContent \<Rightarrow>
          let state = \<lparr>content = (case dataContent of None \<Rightarrow> [] | Some c \<Rightarrow> c),
                       lastModified = now e,
                       version = 1\<rparr>;
              ref = length (documentStates srv)
          in (Some ref,
              srv\<lparr>documentStates := documentStates srv @ [state],
                  documentCache := (documentCache srv)(docId \<mapsto> ref)\<rparr>))"

text \<open>
  \<^verbatim>\<open>updateDocumentState\<close> has no \<^verbatim>\<open>await\<close> inside: it changes the object that the cache
  holds for the document at the time of the call, asks the store to persist the content
  and returns true, or returns false when the cache holds nothing for the document.
\<close>

definition updateDocumentState ::
  "env \<Rightarrow> server \<Rightarrow> docid \<Rightarrow> string \<Rightarrow> bool \<times> server \<times> effect list" where
  "updateDocumentState e srv docId newContent =
     (case documentCache srv docId of
        None \<Rightarrow> (False, srv, [])
      | Some ref \<Rightarrow>
          (True,
           srv\<lparr>documentStates := (documentStates srv)[ref :=
                  (documentStates srv ! ref)\<lparr>content := newContent,
                                              lastModified := now e,
                                              version := js_inc (version (documentStates srv ! ref))\<rparr>]\<rparr>,
           [Persist docId newContent]))"

section \<open>Rate limiter and generation service\<close>

definition checkRateLimit :: "int \<Rightarrow> ai_service \<Rightarrow> sid \<Rightarrow> bool \<times> ai_service" where
  "checkRateLimit t ai userId =
     (case rateLimits ai userId of
        None \<Rightarrow>
          (True, ai\<lparr>rateLimits := (rateLimits ai)(userId \<mapsto> \<lparr>count = 1, resetTime = t + 60000\<rparr>)\<rparr>)
      | Some userLimit \<Rightarrow>
          if t > resetTime userLimit then
            (True, ai\<lparr>rateLimits := (rateLimits ai)(userId \<mapsto> \<lparr>count = 1, resetTime = t + 60000\<rparr>)\<rparr>)
          else if count userLimit \<ge> MAX_REQUESTS_PER_MINUTE then (False, ai)
          else (True, ai\<lparr>rateLimits := (rateLimits ai)(userId \<mapsto> userLimit\<lparr>count := count userLimit + 1\<rparr>)\<rparr>))"

definition cleanupRateLimits :: "int \<Rightarrow> ai_service \<Rightarrow> ai_service" where
  "cleanupRateLimits t ai =
     ai\<lparr>rateLimits := (\<lambda>userId.
           case rateLimits ai userId of
             None \<Rightarrow> None
           | Some limit \<Rightarrow> if t > resetTime limit then None else Some limit)\<rparr>"

text \<open>
  The string operations of \<^verbatim>\<open>buildPrompt\<close>: \<^verbatim>\<open>split\<close> at a character, \<^verbatim>\<open>join\<close>,
  and the index arithmetic of \<^verbatim>\<open>Array.prototype.slice\<close>, where a negative index counts
  from the end and every index is cut to the bounds of the array.
\<close>

fun js_split :: "char \<Rightarrow> string \<Rightarrow> string list" where
  "js_split sep [] = [[]]"
| "js_split sep (c # cs) =
     (if c = sep then [] # js_split sep cs
      else (case js_split sep cs of l # ls \<Rightarrow> (c # l) # ls | [] \<Rightarrow> [[c]]))"

fun js_join :: "string \<Rightarrow> string list \<Rightarrow> string" where
  "js_join sep [] = []"
| "js_join sep [x] = x"
| "js_join sep (x # y # ys) = x @ sep @ js_join sep (y # ys)"

definition js_index :: "int \<Rightarrow> nat \<Rightarrow> nat" where
  "js_index k len = (if k < 0 then nat (max (int len + k) 0) else min (nat k) len)"

definition systemPrompt :: "string \<Rightarrow> string \<Rightarrow> string" where
  "systemPrompt act lang =
     (if act = ''complete'' then
        ''You are an expert '' @ lang @ '' programmer. Complete the following code thoughtfully and concisely. Provide ONLY the code that should be added, without explanations, markdown formatting, or code fences. Do not repeat the existing code.''
      else if act = ''refactor'' then
        ''You are an expert code reviewer. Refactor the following '' @ lang @ '' code to improve readability, performance, and best practices. Return ONLY the refactored code without explanations.''
      else if act = ''explain'' then
        ''You are a coding mentor. Explain the following '' @ lang @ '' code clearly and concisely. Focus on what it does and why.''
      else if act = ''debug'' then
        ''You are a debugging expert. Analyze the following '' @ lang @ '' code for bugs and issues. Suggest fixes with brief explanations.''
      else ''You are a helpful coding assistant for '' @ lang @ ''.'')"

text \<open>
  \<^verbatim>\<open>buildPrompt\<close>. It throws a \<^verbatim>\<open>TypeError\<close> (\<open>Inl\<close> its message) when \<open>code\<close> is
  neither missing nor a string, because \<^verbatim>\<open>code.split\<close> is then no function.
\<close>

definition buildPrompt :: "ai_request \<Rightarrow> string + string" where
  "buildPrompt data =
     (case (case code data of
              Missing \<Rightarrow> Inr []
            | Str s \<Rightarrow> Inr s
            | NullArg \<Rightarrow>
                Inl (''Cannot read properties of null (reading '' @ [CHR 0x27] @ ''split''
                     @ [CHR 0x27] @ '')'')
            | OtherArg \<Rightarrow> Inl ''code.split is not a function'') of
        Inl msg \<Rightarrow> Inl msg
      | Inr codeText \<Rightarrow>
          let lang = (case language data of None \<Rightarrow> ''javascript'' | Some l \<Rightarrow> l);
              request = (case userPrompt data of None \<Rightarrow> [] | Some p \<Rightarrow> p);
              act = (case action data of None \<Rightarrow> ''complete'' | Some a \<Rightarrow> a);
              lines = js_split CHR 0x0A codeText;
              cursorLine = (case cursorPosition data of
                              None \<Rightarrow> int (length lines)
                            | Some lineNumber \<Rightarrow> lineNumber);
              beforeCursor = js_join ''\<newline>'' (take (js_index cursorLine (length lines)) lines);
              afterCursor = js_join ''\<newline>'' (drop (js_index cursorLine (length lines)) lines)
          in Inr (systemPrompt act lang @ ''\<newline>\<newline>''
                  @ (if request \<noteq> [] then ''User request: '' @ request @ ''\<newline>\<newline>'' else [])
                  @ (if beforeCursor \<noteq> [] then
                       ''Code before cursor:\<newline>```'' @ lang @ ''\<newline>'' @ beforeCursor
                       @ ''\<newline>```\<newline>\<newline>''
                     else [])
                  @ (if act = ''complete'' then
                       ''Continue the code from this point. Provide the next logical lines of code.\<newline>''
                     else [])
                  @ (if afterCursor \<noteq> [] \<and> act \<noteq> ''complete'' then
                       ''Code after cursor:\<newline>```'' @ lang @ ''\<newline>'' @ afterCursor
                       @ ''\<newline>```\<newline>''
                     else [])))"

text \<open>
  \<^verbatim>\<open>generateCodeStream\<close> up to its first suspension. The rate-limit check runs first and
  throws when it fails; then the prompt is built, which may throw as well; then the
  backend is called with the prompt, and the generator goes on to yield the backend's
  chunks, rethrowing a backend failure as \<^verbatim>\<open>AI generation failed: ...\<close>. The result is
  what the consumer of the generator is going to see: the chunks, and the message of the
  error thrown after them, if one is thrown.
\<close>

definition generation_failed :: "string \<Rightarrow> string" where
  "generation_failed m = ''AI generation failed: '' @ m"

definition generateCodeStream ::
  "int \<Rightarrow> ai_service \<Rightarrow> ai_request \<Rightarrow> sid \<Rightarrow> backend_response
     \<Rightarrow> (string list \<times> string option) \<times> ai_service \<times> effect list" where
  "generateCodeStream t ai data userId resp =
     (case checkRateLimit t ai userId of
        (False, ai') \<Rightarrow> (([], Some ''Rate limit exceeded. Please try again in a minute.''), ai', [])
      | (True, ai') \<Rightarrow>
          (case buildPrompt data of
             Inl msg \<Rightarrow> (([], Some msg), ai', [])
           | Inr prompt \<Rightarrow>
               ((chunks resp, map_option generation_failed (failure resp)),
                ai', [GenerateContentStream prompt])))"

section \<open>Event handlers\<close>

definition user_list :: "(sid \<rightharpoonup> user_meta) \<Rightarrow> sid list \<Rightarrow> (sid \<times> string \<times> string) list" where
  "user_list md sids =
     List.map_filter (\<lambda>s. case md s of None \<Rightarrow> None | Some meta \<Rightarrow> Some (s, username meta, color meta)) sids"

text \<open>
  The loop of \<^verbatim>\<open>join-document\<close> over the rooms the socket is in, and its callback:
  every room but the socket's own is left, the socket is taken out of that room's user
  set, and an emptied room loses its registry entry and its cached document.
\<close>

definition leave_room :: "sid \<Rightarrow> string \<Rightarrow> server \<Rightarrow> server" where
  "leave_room socketId room srv =
     (if room \<noteq> socketId then
        (let srv1 = socket_leave socketId room srv in
         case map_of (documentUsers srv1) room of
           None \<Rightarrow> srv1
         | Some users \<Rightarrow>
             let users' = set_delete socketId users in
             if length users' = 0 then
               srv1\<lparr>documentCache := (documentCache srv1)(room := None),
                    documentUsers := AList.delete room (documentUsers srv1)\<rparr>
             else srv1\<lparr>documentUsers := AList.update room users' (documentUsers srv1)\<rparr>)
      else srv)"

fun leave_rooms :: "sid \<Rightarrow> string list \<Rightarrow> server \<Rightarrow> server" where
  "leave_rooms socketId [] srv = srv"
| "leave_rooms socketId (room # rooms) srv = leave_rooms socketId rooms (leave_room socketId room srv)"

text \<open>
  The part of \<^verbatim>\<open>join-document\<close> that tracks the socket in the user set of the
  document, creating the set when the document has none.
\<close>

definition track_user :: "sid \<Rightarrow> docid \<Rightarrow> server \<Rightarrow> server" where
  "track_user socketId docId srv =
     (let du1 = (case map_of (documentUsers srv) docId of
                   None \<Rightarrow> AList.update docId [] (documentUsers srv)
                 | Some _ \<Rightarrow> documentUsers srv)
      in srv\<lparr>documentUsers :=
               AList.update docId
                 (set_add socketId (case map_of du1 docId of None \<Rightarrow> [] | Some us \<Rightarrow> us)) du1\<rparr>)"

text \<open>
  \<^verbatim>\<open>join-document\<close> up to its \<^verbatim>\<open>await getDocumentState(documentId)\<close>: the rooms and
  the registry are changed, and the handler is left waiting. When it is resumed with the
  state, it sends the state's fields as they are by then to the socket, and the size of
  the document's user set to the room; when the room has been deleted meanwhile, reading
  the size throws, and nothing catches it.
\<close>

definition join_document :: "server \<Rightarrow> sid \<Rightarrow> docid \<Rightarrow> server \<times> suspended" where
  "join_document srv socketId docId =
     (let rooms = (case socketRooms srv socketId of None \<Rightarrow> [] | Some rs \<Rightarrow> rs);
          srv1 = leave_rooms socketId rooms srv;
          srv2 = socket_join socketId docId srv1;
          srv3 = track_user socketId docId srv2
      in (srv3, getDocumentState srv3 docId (JoinCaller socketId docId)))"

definition join_document_resume :: "server \<Rightarrow> sid \<Rightarrow> docid \<Rightarrow> nat option \<Rightarrow> effect list" where
  "join_document_resume srv socketId docId state =
     (case state of
        None \<Rightarrow> []
      | Some ref \<Rightarrow>
          (case deref srv ref of
             None \<Rightarrow> []
           | Some st \<Rightarrow> [Emit (ToSocket socketId) (DocumentState (content st) (version st))]))
     @ (case map_of (documentUsers srv) docId of
          None \<Rightarrow>
            [UnhandledRejection
               (''Cannot read properties of undefined (reading '' @ [CHR 0x27] @ ''size''
                @ [CHR 0x27] @ '')'')]
        | Some users \<Rightarrow> [Emit (ToRoom docId) (UserCountUpdate (length users))])"

text \<open>
  \<^verbatim>\<open>send-changes\<close>. When the cache holds the document, the handler goes straight to
  \<^verbatim>\<open>updateDocumentState\<close> and waits for its value; otherwise it first waits for
  \<^verbatim>\<open>getDocumentState\<close>, reports a null to the socket, and goes on to the update with a
  reference. After the update it broadcasts the fields of the object in its variable
  \<^verbatim>\<open>state\<close>, as they are at that time.
\<close>

definition send_changes_update ::
  "env \<Rightarrow> server \<Rightarrow> sid \<Rightarrow> docid \<Rightarrow> string \<Rightarrow> nat \<Rightarrow> server \<times> effect list \<times> suspended" where
  "send_changes_update e srv socketId docId newContent state =
     (case updateDocumentState e srv docId newContent of
        (success, srv1, effs) \<Rightarrow> (srv1, effs, Updated socketId docId state success))"

definition send_changes ::
  "env \<Rightarrow> server \<Rightarrow> sid \<Rightarrow> docid \<Rightarrow> string \<Rightarrow> server \<times> effect list \<times> suspended" where
  "send_changes e srv socketId docId newContent =
     (case documentCache srv docId of
        Some state \<Rightarrow> send_changes_update e srv socketId docId newContent state
      | None \<Rightarrow> (srv, [], getDocumentState srv docId (SendCaller socketId docId newContent)))"

definition send_changes_hydrated ::
  "env \<Rightarrow> server \<Rightarrow> sid \<Rightarrow> docid \<Rightarrow> string \<Rightarrow> nat option
     \<Rightarrow> server \<times> effect list \<times> suspended option" where
  "send_changes_hydrated e srv socketId docId newContent state =
     (case state of
        None \<Rightarrow> (srv, [Emit (ToSocket socketId) (ErrorMsg ''Document not found'')], None)
      | Some ref \<Rightarrow>
          (case send_changes_update e srv socketId docId newContent ref of
             (srv1, effs, k) \<Rightarrow> (srv1, effs, Some k)))"

definition send_changes_updated :: "server \<Rightarrow> sid \<Rightarrow> docid \<Rightarrow> nat \<Rightarrow> bool \<Rightarrow> effect list" where
  "send_changes_updated srv socketId docId state success =
     (if success then
        (case deref srv state of
           None \<Rightarrow> []
         | Some st \<Rightarrow> [Emit (ToRoom docId) (ReceiveChanges (content st) (version st) socketId)])
      else [])"

definition request_sync :: "server \<Rightarrow> sid \<Rightarrow> docid \<Rightarrow> suspended" where
  "request_sync srv socketId docId = getDocumentState srv docId (SyncCaller socketId docId)"

definition request_sync_resume :: "server \<Rightarrow> sid \<Rightarrow> nat option \<Rightarrow> effect list" where
  "request_sync_resume srv socketId state =
     (case state of
        None \<Rightarrow> []
      | Some ref \<Rightarrow>
          (case deref srv ref of
             None \<Rightarrow> []
           | Some st \<Rightarrow> [Emit (ToSocket socketId) (DocumentState (content st) (version st))]))"

text \<open>
  The resumption of a suspended document handler, with the clock and the store's answer
  of that moment. It gives the new state, the effects, and what the handler waits for
  next, if it is not finished.
\<close>

fun continue_suspended ::
  "env \<Rightarrow> server \<Rightarrow> suspended \<Rightarrow> server \<times> effect list \<times> suspended option" where
  "continue_suspended e srv (Fetching docId k) =
     (case getDocumentState_resume e srv docId of (r, srv1) \<Rightarrow> (srv1, [], Some (Returned k r)))"
| "continue_suspended e srv (Returned (JoinCaller socketId docId) r) =
     (srv, join_document_resume srv socketId docId r, None)"
| "continue_suspended e srv (Returned (SendCaller socketId docId newContent) r) =
     send_changes_hydrated e srv socketId docId newContent r"
| "continue_suspended e srv (Returned (SyncCaller socketId docId) r) =
     (srv, request_sync_resume srv socketId r, None)"
| "continue_suspended e srv (Updated socketId docId state success) =
     (srv, send_changes_updated srv socketId docId state success, None)"

definition set_user_identity ::
  "server \<Rightarrow> sid \<Rightarrow> docid \<Rightarrow> string \<Rightarrow> string \<Rightarrow> server \<times> effect list" where
  "set_user_identity srv socketId docId uname col =
     (let srv1 = srv\<lparr>userMetadata := (userMetadata srv)(socketId \<mapsto>
                       \<lparr>username = uname, color = col, documentId = docId\<rparr>)\<rparr>;
          users = user_list (userMetadata srv1)
                    (case map_of (documentUsers srv1) docId of None \<Rightarrow> [] | Some us \<Rightarrow> us)
      in (srv1, [Emit (ToRoom docId) (UsersUpdate users)]))"

definition cursor_move ::
  "server \<Rightarrow> sid \<Rightarrow> docid \<Rightarrow> json \<Rightarrow> json \<Rightarrow> server \<times> effect list" where
  "cursor_move srv socketId docId position selection =
     (case userMetadata srv socketId of
        None \<Rightarrow> (srv, [])
      | Some metadata \<Rightarrow>
          (srv, [Emit (ToRoomExcept docId socketId)
                   (CursorUpdate socketId (username metadata) (color metadata) position selection)]))"

text \<open>
  \<^verbatim>\<open>ai-generate\<close> up to its first suspension. The two guards answer at once. Otherwise
  the handler starts the generator, whose rate-limit check and prompt building run before
  anything is awaited, and is left waiting in its \<^verbatim>\<open>for await\<close> loop; an error thrown
  by the generator reaches the handler's \<^verbatim>\<open>catch\<close> only when the handler is resumed.
  \<open>ai_generate_data\<close> is the object the handler passes on, in which an action that is
  missing or empty is replaced by \<^verbatim>\<open>complete\<close>.
\<close>

definition ai_generate_data :: "ai_request \<Rightarrow> ai_request" where
  "ai_generate_data req =
     req\<lparr>action := (case action req of
                        None \<Rightarrow> Some ''complete''
                      | Some a \<Rightarrow> if a = [] then Some ''complete'' else Some a)\<rparr>"

definition ai_generate ::
  "env \<Rightarrow> server \<Rightarrow> sid \<Rightarrow> ai_request \<Rightarrow> backend_response
     \<Rightarrow> server \<times> effect list \<times> generation option" where
  "ai_generate e srv socketId req resp =
     (case userMetadata srv socketId of
        None \<Rightarrow> (srv, [Emit (ToSocket socketId) (AiError ''User not authenticated'')], None)
      | Some metadata \<Rightarrow>
          (case aiService srv of
             None \<Rightarrow>
               (srv, [Emit (ToSocket socketId) (AiError ''AI service is not available'')], None)
           | Some ai \<Rightarrow>
               (case generateCodeStream (now e) ai (ai_generate_data req) socketId resp of
                  ((cs, fl), ai', effs) \<Rightarrow>
                    (srv\<lparr>aiService := Some ai'\<rparr>, effs,
                     Some \<lparr>gen_socket = socketId, gen_chunks = cs, gen_failure = fl\<rparr>))))"

text \<open>
  One turn of the handler's \<^verbatim>\<open>for await\<close> loop: the next chunk is emitted to the
  socket that asked, or the stream is over and the handler ends with \<^verbatim>\<open>ai-complete\<close>,
  or with \<^verbatim>\<open>ai-error\<close> when the generator threw.
\<close>

definition ai_generate_resume :: "generation \<Rightarrow> effect list \<times> generation option" where
  "ai_generate_resume g =
     (case gen_chunks g of
        chunk # rest \<Rightarrow> ([Emit (ToSocket (gen_socket g)) (AiChunk chunk)], Some (g\<lparr>gen_chunks := rest\<rparr>))
      | [] \<Rightarrow>
          (case gen_failure g of
             None \<Rightarrow> ([Emit (ToSocket (gen_socket g)) AiComplete], None)
           | Some msg \<Rightarrow> ([Emit (ToSocket (gen_socket g)) (AiError msg)], None)))"

text \<open>
  The \<^verbatim>\<open>forEach\<close> of the disconnect handler over the entries of \<open>documentUsers\<close>.
  The keys of a \<^verbatim>\<open>Map\<close> are unique, so what the callback does to the entry it visits
  (shrinking its set, or deleting the entry by key) is done to that entry of the list.
  The first argument says whether the socket had registered an identity.
\<close>

fun disconnect_loop ::
  "sid \<Rightarrow> bool \<Rightarrow> (sid \<rightharpoonup> user_meta) \<Rightarrow> (docid \<times> sid list) list \<Rightarrow> (docid \<rightharpoonup> nat)
     \<Rightarrow> (docid \<times> sid list) list \<times> (docid \<rightharpoonup> nat) \<times> effect list" where
  "disconnect_loop socketId hasMeta md [] cache = ([], cache, [])"
| "disconnect_loop socketId hasMeta md ((docId, users) # entries) cache =
     (if socketId \<in> set users then
        (let users' = set_delete socketId users;
             effs = [Emit (ToRoom docId) (UserCountUpdate (length users')),
                     Emit (ToRoom docId) (UsersUpdate (user_list md users'))]
                    @ (if hasMeta then [Emit (ToRoom docId) (CursorRemove socketId)] else [])
         in case disconnect_loop socketId hasMeta md entries
                   (if length users' = 0 then cache(docId := None) else cache) of
              (entries', cache', effs') \<Rightarrow>
                ((if length users' = 0 then entries' else (docId, users') # entries'),
                 cache', effs @ effs'))
      else
        (case disconnect_loop socketId hasMeta md entries cache of
           (entries', cache', effs') \<Rightarrow> ((docId, users) # entries', cache', effs')))"

definition disconnect :: "server \<Rightarrow> sid \<Rightarrow> server \<times> effect list" where
  "disconnect srv socketId =
     (case disconnect_loop socketId (userMetadata srv socketId \<noteq> None) (userMetadata srv)
             (documentUsers srv) (documentCache srv) of
        (entries', cache', effs) \<Rightarrow>
          (srv\<lparr>documentUsers := entries',
               documentCache := cache',
               userMetadata := (userMetadata srv)(socketId := None)\<rparr>,
           effs))"

definition leave_document :: "server \<Rightarrow> sid \<Rightarrow> docid \<Rightarrow> server \<times> effect list" where
  "leave_document srv socketId docId =
     (let srv1 = socket_leave socketId docId srv in
      case map_of (documentUsers srv1) docId of
        None \<Rightarrow> (srv1\<lparr>userMetadata := (userMetadata srv1)(socketId := None)\<rparr>, [])
      | Some users0 \<Rightarrow>
          let users = set_delete socketId users0;
              userCount = length users;
              effs = [Emit (ToRoom docId) (UserCountUpdate userCount),
                      Emit (ToRoom docId) (UsersUpdate (user_list (userMetadata srv1) users)),
                      Emit (ToRoom docId) (CursorRemove socketId)];
              srv2 = (if userCount = 0 then
                        srv1\<lparr>documentCache := (documentCache srv1)(docId := None),
                             documentUsers := AList.delete docId (documentUsers srv1)\<rparr>
                      else srv1\<lparr>documentUsers := AList.update docId users (documentUsers srv1)\<rparr>)
          in (srv2\<lparr>userMetadata := (userMetadata srv2)(socketId := None)\<rparr>, effs))"

section \<open>The event loop\<close>

text \<open>
  The events a socket can raise. \<open>Connect\<close> is socket.io's \<^verbatim>\<open>connection\<close> event, at
  which the new socket is in the room of its own id. An \<open>AiGenerate\<close> event carries, next
  to the request, what the backend is going to answer. The chat and workspace-file handlers
  of the same file read \<open>userMetadata\<close> and touch none of the state modelled here; they are
  left out.
\<close>

datatype event =
    Connect
  | JoinDocument docid
  | SendChanges docid string
  | RequestSync docid
  | SetUserIdentity docid string string
  | CursorMove docid json json
  | AiGenerate ai_request backend_response
  | Disconnect
  | LeaveDocument docid

text \<open>
  The process: the module state, the \<^verbatim>\<open>ai-generate\<close> handlers that are suspended in
  their streaming loop, and the document handlers that are suspended at an \<^verbatim>\<open>await\<close>.
  The event loop runs one of: a socket event (a handler runs up to its end or to its first
  \<^verbatim>\<open>await\<close>), the resumption of a streaming handler by its next chunk, the resumption
  of a suspended document handler, or the five-minute timer that reclaims expired
  rate-limit buckets. Nothing is assumed about the order in which suspended handlers are
  resumed, or about what runs in between.
\<close>

record runtime =
  rt_server :: server
  rt_pending :: "generation list"
  rt_waiting :: "suspended list"

datatype rt_event = Socket sid event | Resume nat | Continue nat | Timer

definition init_server :: "bool \<Rightarrow> server" where
  "init_server hasApiKey =
     \<lparr>documentCache = Map.empty,
      documentStates = [],
      documentUsers = [],
      userMetadata = Map.empty,
      aiService = (if hasApiKey then Some \<lparr>rateLimits = Map.empty\<rparr> else None),
      socketRooms = Map.empty\<rparr>"

definition init_runtime :: "bool \<Rightarrow> runtime" where
  "init_runtime hasApiKey = \<lparr>rt_server = init_server hasApiKey, rt_pending = [], rt_waiting = []\<rparr>"

text \<open>
  Handlers exist only on connected sockets, and socket ids are not reused while connected:
  an event of a socket that is not connected, or a \<open>Connect\<close> of one that is, does not
  occur and is skipped. On disconnection socket.io takes the socket out of all its rooms
  before the \<^verbatim>\<open>disconnect\<close> handler runs.
\<close>

definition handle :: "env \<Rightarrow> runtime \<Rightarrow> sid \<Rightarrow> event \<Rightarrow> runtime \<times> effect list" where
  "handle e rt socketId ev =
     (let srv = rt_server rt in
      case ev of
        Connect \<Rightarrow> (rt\<lparr>rt_server := srv\<lparr>socketRooms := (socketRooms srv)(socketId \<mapsto> [socketId])\<rparr>\<rparr>, [])
      | JoinDocument docId \<Rightarrow>
          (case join_document srv socketId docId of
             (srv', k) \<Rightarrow> (rt\<lparr>rt_server := srv', rt_waiting := rt_waiting rt @ [k]\<rparr>, []))
      | SendChanges docId newContent \<Rightarrow>
          (case send_changes e srv socketId docId newContent of
             (srv', effs, k) \<Rightarrow> (rt\<lparr>rt_server := srv', rt_waiting := rt_waiting rt @ [k]\<rparr>, effs))
      | RequestSync docId \<Rightarrow>
          (rt\<lparr>rt_waiting := rt_waiting rt @ [request_sync srv socketId docId]\<rparr>, [])
      | SetUserIdentity docId uname col \<Rightarrow>
          (case set_user_identity srv socketId docId uname col of
             (srv', effs) \<Rightarrow> (rt\<lparr>rt_server := srv'\<rparr>, effs))
      | CursorMove docId position selection \<Rightarrow>
          (case cursor_move srv socketId docId position selection of
             (srv', effs) \<Rightarrow> (rt\<lparr>rt_server := srv'\<rparr>, effs))
      | AiGenerate req resp \<Rightarrow>
          (case ai_generate e srv socketId req resp of
             (srv', effs, g) \<Rightarrow>
               (rt\<lparr>rt_server := srv',
                   rt_pending := rt_pending rt @ (case g of None \<Rightarrow> [] | Some g' \<Rightarrow> [g'])\<rparr>, effs))
      | Disconnect \<Rightarrow>
          (case disconnect (srv\<lparr>socketRooms := (socketRooms srv)(socketId := None)\<rparr>) socketId of
             (srv', effs) \<Rightarrow> (rt\<lparr>rt_server := srv'\<rparr>, effs))
      | LeaveDocument docId \<Rightarrow>
          (case leave_document srv socketId docId of (srv', effs) \<Rightarrow> (rt\<lparr>rt_server := srv'\<rparr>, effs)))"

definition rt_step :: "env \<Rightarrow> runtime \<Rightarrow> rt_event \<Rightarrow> runtime \<times> effect list" where
  "rt_step e rt x =
     (case x of
        Socket socketId ev \<Rightarrow>
          if (ev = Connect) = (socketRooms (rt_server rt) socketId = None)
          then handle e rt socketId ev
          else (rt, [])
      | Resume i \<Rightarrow>
          if i < length (rt_pending rt) then
            (case ai_generate_resume (rt_pending rt ! i) of
               (effs, None) \<Rightarrow>
                 (rt\<lparr>rt_pending := take i (rt_pending rt) @ drop (Suc i) (rt_pending rt)\<rparr>, effs)
             | (effs, Some g) \<Rightarrow> (rt\<lparr>rt_pending := (rt_pending rt)[i := g]\<rparr>, effs))
          else (rt, [])
      | Continue i \<Rightarrow>
          if i < length (rt_waiting rt) then
            (case continue_suspended e (rt_server rt) (rt_waiting rt ! i) of
               (srv', effs, None) \<Rightarrow>
                 (rt\<lparr>rt_server := srv',
                     rt_waiting := take i (rt_waiting rt) @ drop (Suc i) (rt_waiting rt)\<rparr>, effs)
             | (srv', effs, Some k) \<Rightarrow>
                 (rt\<lparr>rt_server := srv', rt_waiting := (rt_waiting rt)[i := k]\<rparr>, effs))
          else (rt, [])
      | Timer \<Rightarrow>
          (case aiService (rt_server rt) of
             None \<Rightarrow> (rt, [])
           | Some ai \<Rightarrow>
               (rt\<lparr>rt_server := (rt_server rt)\<lparr>aiService := Some (cleanupRateLimits (now e) ai)\<rparr>\<rparr>, [])))"

text \<open>
  A run of the event loop over events in arrival order, each with the clock and store of
  its moment; the trace pairs every effect with the module state at the end of its step.
  In every step all emits come after the step's last change to a room, so the state at
  the end of the step is the state at the emit as far as delivery goes.
\<close>

fun rt_run :: "runtime \<Rightarrow> (env \<times> rt_event) list \<Rightarrow> runtime \<times> (server \<times> effect) list" where
  "rt_run rt [] = (rt, [])"
| "rt_run rt ((e, x) # xs) =
     (case rt_step e rt x of
        (rt1, effs) \<Rightarrow>
          (case rt_run rt1 xs of
             (rt2, tr) \<Rightarrow> (rt2, map (\<lambda>f. (rt_server rt1, f)) effs @ tr)))"

definition delivered :: "sid \<Rightarrow> server \<times> effect \<Rightarrow> message option" where
  "delivered r p =
     (case snd p of
        Emit t m \<Rightarrow> if receives (fst p) t r then Some m else None
      | _ \<Rightarrow> None)"

definition deliveries :: "sid \<Rightarrow> (server \<times> effect) list \<Rightarrow> message list" where
  "deliveries r tr = List.map_filter (delivered r) tr"

section \<open>Drivers and sample values\<close>

definition sample_env :: env where
  "sample_env = \<lparr>now = 0, documents = (\<lambda>d. if d = ''doc'' then Some (Some ''text'') else None)\<rparr>"

definition sample_request :: ai_request where
  "sample_request =
     \<lparr>code = Str ''x'', language = Some ''js'', cursorPosition = None, userPrompt = None,
      action = None\<rparr>"

definition sample_response :: backend_response where
  "sample_response = \<lparr>chunks = [''a'', ''b''], failure = None\<rparr>"

text \<open>
  A room of two sockets, of which only \<open>b\<close> has announced an identity.
\<close>

definition sample_room :: server where
  "sample_room =
     \<lparr>documentCache = [''doc'' \<mapsto> 0],
      documentStates = [\<lparr>content = ''text'', lastModified = 0, version = 1\<rparr>],
      documentUsers = [(''doc'', [''a'', ''b''])],
      userMetadata = [''b'' \<mapsto> \<lparr>username = ''Bo'', color = ''red'', documentId = ''doc''\<rparr>],
      aiService = Some \<lparr>rateLimits = Map.empty\<rparr>,
      socketRooms = [''a'' \<mapsto> [''a'', ''doc''], ''b'' \<mapsto> [''b'', ''doc'']]\<rparr>"


text \<open>
  A room's user set after socket \<open>s\<close> has been taken out of it, as the registry keeps it:
  a set that became empty is no entry at all. \<open>entry_without\<close> is the same on an entry
  that the disconnect handler visits, which it leaves alone when \<open>s\<close> is not in it.
\<close>

definition room_without :: "sid \<Rightarrow> sid list option \<Rightarrow> sid list option" where
  "room_without s m =
     (case m of
        None \<Rightarrow> None
      | Some us \<Rightarrow> if removeAll s us = [] then None else Some (removeAll s us))"

definition entry_without :: "sid \<Rightarrow> docid \<times> sid list \<Rightarrow> (docid \<times> sid list) option" where
  "entry_without s p =
     (if s \<in> set (snd p) then
        (if removeAll s (snd p) = [] then None else Some (fst p, removeAll s (snd p)))
      else Some p)"


definition registry_ok :: "server \<Rightarrow> bool" where
  "registry_ok srv =
     (distinct (map fst (documentUsers srv)) \<and>
      (\<forall>d us. map_of (documentUsers srv) d = Some us \<longrightarrow>
         us \<noteq> [] \<and>
         (\<forall>s \<in> set us. \<exists>rooms. socketRooms srv s = Some rooms \<and> d \<in> set rooms)))"

text \<open>
  A socket that has joined a document, announced itself and asked for a generation of two
  chunks, of which the first has been sent; and the events that lead there.
\<close>

definition sample_events :: "(env \<times> rt_event) list" where
  "sample_events =
     [(sample_env, Socket ''a'' Connect),
      (sample_env, Socket ''a'' (JoinDocument ''doc'')),
      (sample_env, Continue 0),
      (sample_env, Continue 0),
      (sample_env, Socket ''a'' (SetUserIdentity ''doc'' ''Al'' ''blue'')),
      (sample_env, Socket ''a'' (AiGenerate sample_request sample_response)),
      (sample_env, Resume 0)]"

definition sample_streaming :: runtime where
  "sample_streaming =
     \<lparr>rt_server =
        \<lparr>documentCache = [''doc'' \<mapsto> 0],
         documentStates = [\<lparr>content = ''text'', lastModified = 0, version = 1\<rparr>],
         documentUsers = [(''doc'', [''a''])],
         userMetadata = [''a'' \<mapsto> \<lparr>username = ''Al'', color = ''blue'', documentId = ''doc''\<rparr>],
         aiService = Some \<lparr>rateLimits = [''a'' \<mapsto> \<lparr>count = 1, resetTime = 60000\<rparr>]\<rparr>,
         socketRooms = [''a'' \<mapsto> [''a'', ''doc'']]\<rparr>,
      rt_pending = [\<lparr>gen_socket = ''a'', gen_chunks = [''b''], gen_failure = None\<rparr>],
      rt_waiting = []\<rparr>"


text \<open>
  What one \<^verbatim>\<open>ai-generate\<close> event of a socket did: the request and the backend's
  answer that came with the event, the process before and after the handler's step, and
  the effects of the step. \<open>ai_outcomes\<close> collects them, in order, for the
  \<^verbatim>\<open>ai-generate\<close> events of socket \<open>u\<close> in a run.
\<close>

record ai_outcome =
  out_request :: ai_request
  out_response :: backend_response
  out_before :: runtime
  out_after :: runtime
  out_effects :: "effect list"

fun is_ai_request :: "sid \<Rightarrow> rt_event \<Rightarrow> bool" where
  "is_ai_request u (Socket s (AiGenerate req resp)) = (s = u)"
| "is_ai_request u x = False"

fun ai_outcomes :: "sid \<Rightarrow> runtime \<Rightarrow> (env \<times> rt_event) list \<Rightarrow> ai_outcome list" where
  "ai_outcomes u rt [] = []"
| "ai_outcomes u rt ((e, x) # xs) =
     (case x of
        Socket s (AiGenerate req resp) \<Rightarrow>
          if s = u then
            [\<lparr>out_request = req, out_response = resp, out_before = rt,
              out_after = fst (rt_step e rt x), out_effects = snd (rt_step e rt x)\<rparr>]
          else []
      | _ \<Rightarrow> [])
     @ ai_outcomes u (fst (rt_step e rt x)) xs"

text \<open>
  A request is served when the step has admitted it: the prompt is built from the
  handler's data and the backend is called with it once, and the handler is left waiting
  for the backend's chunks; or, when the prompt cannot be built because \<open>code\<close> is no
  string, no backend is called and the handler is left with that error to report. A
  request is refused when the step has called no backend and has changed nothing but to
  leave the handler with the rate-limit error to report.
\<close>

definition served :: "sid \<Rightarrow> ai_outcome \<Rightarrow> bool" where
  "served u out =
     (case buildPrompt (ai_generate_data (out_request out)) of
        Inr prompt \<Rightarrow>
          out_effects out = [GenerateContentStream prompt] \<and>
          rt_pending (out_after out) =
            rt_pending (out_before out) @
              [\<lparr>gen_socket = u, gen_chunks = chunks (out_response out),
                gen_failure = map_option generation_failed (failure (out_response out))\<rparr>]
      | Inl msg \<Rightarrow>
          out_effects out = [] \<and>
          rt_pending (out_after out) =
            rt_pending (out_before out) @ [\<lparr>gen_socket = u, gen_chunks = [], gen_failure = Some msg\<rparr>])"

definition refused :: "sid \<Rightarrow> ai_outcome \<Rightarrow> bool" where
  "refused u out =
     (out_effects out = [] \<and>
      out_after out =
        (out_before out)\<lparr>rt_pending := rt_pending (out_before out) @
           [\<lparr>gen_socket = u, gen_chunks = [],
             gen_failure = Some ''Rate limit exceeded. Please try again in a minute.''\<rparr>]\<rparr>)"

text \<open>
  An event that lies in the rate-limit window ending at \<open>r\<close>, and is not one by which
  socket \<open>u\<close> gives up its identity.
\<close>

definition in_window :: "sid \<Rightarrow> int \<Rightarrow> env \<times> rt_event \<Rightarrow> bool" where
  "in_window u r p =
     (now (fst p) \<le> r \<and>
      (case snd p of
         Socket s Disconnect \<Rightarrow> s \<noteq> u
       | Socket s (LeaveDocument d) \<Rightarrow> s \<noteq> u
       | _ \<Rightarrow> True))"

text \<open>
  Socket \<open>a\<close> connected and identified, with the generation service up.
\<close>

definition sample_identified :: runtime where
  "sample_identified =
     \<lparr>rt_server =
        \<lparr>documentCache = Map.empty,
         documentStates = [],
         documentUsers = [],
         userMetadata = [''a'' \<mapsto> \<lparr>username = ''Al'', color = ''blue'', documentId = ''doc''\<rparr>],
         aiService = Some \<lparr>rateLimits = Map.empty\<rparr>,
         socketRooms = [''a'' \<mapsto> [''a'']]\<rparr>,
      rt_pending = [],
      rt_waiting = []\<rparr>"


















section \<open>The room registry\<close>

lemma socket_leave_fields [simp]:
  "documentCache (socket_leave s room srv) = documentCache srv"
  "documentUsers (socket_leave s room srv) = documentUsers srv"
  "userMetadata (socket_leave s room srv) = userMetadata srv"
  "aiService (socket_leave s room srv) = aiService srv"
  by (simp_all add: socket_leave_def split: option.splits)

lemma socket_join_fields [simp]:
  "documentCache (socket_join s room srv) = documentCache srv"
  "documentUsers (socket_join s room srv) = documentUsers srv"
  "userMetadata (socket_join s room srv) = userMetadata srv"
  "aiService (socket_join s room srv) = aiService srv"
  by (simp_all add: socket_join_def split: option.splits)

lemma room_without_idem [simp]: "room_without s (room_without s m) = room_without s m"
  by (simp add: room_without_def split: option.splits)

lemma room_without_None [simp]: "room_without s None = None"
  by (simp add: room_without_def)

lemma leave_room_users:
  "map_of (documentUsers (leave_room s room srv)) r =
     (if r = room \<and> room \<noteq> s then room_without s (map_of (documentUsers srv) r)
      else map_of (documentUsers srv) r)"
  by (auto simp: leave_room_def Let_def set_delete_def room_without_def update_conv' delete_conv'
      split: option.splits)

lemma leave_room_distinct:
  "distinct (map fst (documentUsers srv)) \<Longrightarrow> distinct (map fst (documentUsers (leave_room s room srv)))"
  by (auto simp: leave_room_def Let_def distinct_update distinct_delete split: option.splits)

lemma leave_room_keys:
  "fst ` set (documentUsers (leave_room s room srv)) \<subseteq> fst ` set (documentUsers srv)"
proof -
  have "map_of (documentUsers srv) room = Some us \<Longrightarrow> room \<in> fst ` set (documentUsers srv)" for us
    by (meson domI domIff map_of_eq_None_iff)
  then show ?thesis
    using dom_delete_subset[of room "documentUsers srv"]
    by (auto simp: leave_room_def Let_def dom_update split: option.splits)
qed

lemma leave_room_cache:
  "documentCache (leave_room s room srv) r =
     (if r = room \<and> room \<noteq> s \<and> map_of (documentUsers srv) r \<noteq> None
         \<and> room_without s (map_of (documentUsers srv) r) = None
      then None else documentCache srv r)"
  by (auto simp: leave_room_def Let_def set_delete_def room_without_def split: option.splits)

lemma leave_room_sockets:
  "socketRooms (leave_room s room srv) =
     (if room \<noteq> s then socketRooms (socket_leave s room srv) else socketRooms srv)"
  by (auto simp: leave_room_def Let_def split: option.splits)

lemma leave_room_other [simp]:
  "userMetadata (leave_room s room srv) = userMetadata srv"
  "aiService (leave_room s room srv) = aiService srv"
  by (auto simp: leave_room_def Let_def socket_leave_def split: option.splits)

lemma leave_rooms_other [simp]:
  "userMetadata (leave_rooms s rooms srv) = userMetadata srv"
  "aiService (leave_rooms s rooms srv) = aiService srv"
  by (induction rooms arbitrary: srv) auto

lemma leave_rooms_users:
  "map_of (documentUsers (leave_rooms s rooms srv)) r =
     (if r \<in> set rooms \<and> r \<noteq> s then room_without s (map_of (documentUsers srv) r)
      else map_of (documentUsers srv) r)"
  by (induction rooms arbitrary: srv) (auto simp: leave_room_users)

lemma leave_rooms_distinct:
  "distinct (map fst (documentUsers srv)) \<Longrightarrow> distinct (map fst (documentUsers (leave_rooms s rooms srv)))"
  by (induction rooms arbitrary: srv) (auto simp: leave_room_distinct)

lemma leave_rooms_keys:
  "fst ` set (documentUsers (leave_rooms s rooms srv)) \<subseteq> fst ` set (documentUsers srv)"
proof (induction rooms arbitrary: srv)
  case Nil
  show ?case by simp
next
  case (Cons room rooms)
  show ?case using Cons[of "leave_room s room srv"] leave_room_keys[of s room srv] by auto
qed

lemma leave_rooms_cache_mono:
  "documentCache srv r = None \<Longrightarrow> documentCache (leave_rooms s rooms srv) r = None"
  by (induction rooms arbitrary: srv) (auto simp: leave_room_cache)

lemma leave_rooms_cache_other:
  "r \<notin> set rooms \<or> r = s \<Longrightarrow> documentCache (leave_rooms s rooms srv) r = documentCache srv r"
  by (induction rooms arbitrary: srv) (auto simp: leave_room_cache)

lemma leave_rooms_sockets_other:
  "s' \<noteq> s \<Longrightarrow> socketRooms (leave_rooms s rooms srv) s' = socketRooms srv s'"
  by (induction rooms arbitrary: srv) (auto simp: leave_room_sockets socket_leave_def split: option.splits)

lemma leave_rooms_sockets_self:
  "socketRooms (leave_rooms s rooms srv) s =
     map_option (filter (\<lambda>r. r = s \<or> r \<notin> set rooms)) (socketRooms srv s)"
proof (induction rooms arbitrary: srv)
  case Nil
  show ?case by (simp add: option.map_ident)
next
  case (Cons room rooms)
  have "filter (\<lambda>r. r = s \<or> r \<notin> set rooms) (removeAll room rs) = filter (\<lambda>r. r = s \<or> (r \<noteq> room \<and> r \<notin> set rooms)) rs"
    if "room \<noteq> s" for rs
    using that by (induction rs) auto
  then show ?case using Cons[of "leave_room s room srv"]
    by (auto simp: leave_room_sockets socket_leave_def set_delete_def option.map_comp comp_def
        split: option.splits intro!: filter_cong)
qed

lemma disconnect_loop_entries:
  "fst (disconnect_loop s hm md entries cache) = List.map_filter (entry_without s) entries"
proof (induction entries arbitrary: cache)
  case Nil
  show ?case by (simp add: List.map_filter_simps)
next
  case (Cons p entries)
  obtain d us where p: "p = (d, us)" by (cases p)
  let ?c = "if removeAll s us = [] then cache(d := None) else cache"
  obtain e1 c1 f1 where r1: "disconnect_loop s hm md entries ?c = (e1, c1, f1)"
    by (cases "disconnect_loop s hm md entries ?c")
  obtain e2 c2 f2 where r2: "disconnect_loop s hm md entries cache = (e2, c2, f2)"
    by (cases "disconnect_loop s hm md entries cache")
  have e1: "e1 = List.map_filter (entry_without s) entries" using Cons.IH[of ?c] r1 by simp
  have e2: "e2 = List.map_filter (entry_without s) entries" using Cons.IH[of cache] r2 by simp
  have ew: "entry_without s (d, us) =
     (if s \<in> set us then (if removeAll s us = [] then None else Some (d, removeAll s us)) else Some (d, us))"
    by (simp add: entry_without_def)
  show ?case
  proof (cases "s \<in> set us")
    case True
    then show ?thesis using p r1 e1
      by (simp add: Let_def set_delete_def List.map_filter_simps ew)
  next
    case False
    then show ?thesis using p r2 e2
      by (simp add: List.map_filter_simps ew)
  qed
qed

lemma disconnect_loop_cache:
  "fst (snd (disconnect_loop s hm md entries cache)) d =
     (if \<exists>us. (d, us) \<in> set entries \<and> s \<in> set us \<and> removeAll s us = [] then None else cache d)"
proof (induction entries arbitrary: cache)
  case Nil
  show ?case by simp
next
  case (Cons p entries)
  obtain d' us' where p: "p = (d', us')" by (cases p)
  let ?c = "if removeAll s us' = [] then cache(d' := None) else cache"
  obtain e1 c1 f1 where r1: "disconnect_loop s hm md entries ?c = (e1, c1, f1)"
    by (cases "disconnect_loop s hm md entries ?c")
  obtain e2 c2 f2 where r2: "disconnect_loop s hm md entries cache = (e2, c2, f2)"
    by (cases "disconnect_loop s hm md entries cache")
  have c1: "c1 d = (if \<exists>us. (d, us) \<in> set entries \<and> s \<in> set us \<and> removeAll s us = [] then None else ?c d)"
    using Cons.IH[of ?c] r1 by simp
  have c2: "c2 d = (if \<exists>us. (d, us) \<in> set entries \<and> s \<in> set us \<and> removeAll s us = [] then None else cache d)"
    using Cons.IH[of cache] r2 by simp
  show ?case
  proof (cases "s \<in> set us'")
    case True
    have "fst (snd (disconnect_loop s hm md (p # entries) cache)) d = c1 d"
      using True p r1 by (simp add: Let_def set_delete_def)
    then show ?thesis using c1 True p by auto
  next
    case False
    have "fst (snd (disconnect_loop s hm md (p # entries) cache)) d = c2 d"
      using False p r2 by simp
    then show ?thesis using c2 False p by auto
  qed
qed

lemma map_filter_keys:
  "(\<And>p q. f p = Some q \<Longrightarrow> fst q = fst p) \<Longrightarrow> fst ` set (List.map_filter f xs) \<subseteq> fst ` set xs"
proof (induction xs)
  case Nil
  show ?case by (simp add: List.map_filter_simps)
next
  case (Cons x xs)
  have ih: "fst ` set (List.map_filter f xs) \<subseteq> fst ` set xs" using Cons by blast
  show ?case
  proof (cases "f x")
    case None
    then show ?thesis using ih by (auto simp: List.map_filter_simps)
  next
    case (Some q)
    then have "fst q = fst x" using Cons.prems by blast
    then show ?thesis using ih Some by (auto simp: List.map_filter_simps)
  qed
qed

lemma map_filter_distinct:
  "(\<And>p q. f p = Some q \<Longrightarrow> fst q = fst p) \<Longrightarrow> distinct (map fst xs) \<Longrightarrow>
   distinct (map fst (List.map_filter f xs))"
proof (induction xs)
  case Nil
  show ?case by (simp add: List.map_filter_simps)
next
  case (Cons x xs)
  have keys: "fst ` set (List.map_filter f xs) \<subseteq> fst ` set xs"
    using map_filter_keys[of f xs] Cons.prems(1) by blast
  have ih: "distinct (map fst (List.map_filter f xs))" using Cons by simp
  show ?case
  proof (cases "f x")
    case None
    then show ?thesis using ih by (simp add: List.map_filter_simps)
  next
    case (Some q)
    then have "fst q = fst x" using Cons.prems(1) by blast
    moreover have "fst x \<notin> fst ` set (List.map_filter f xs)"
      using keys Cons.prems(2) by auto
    ultimately show ?thesis using ih Some by (simp add: List.map_filter_simps)
  qed
qed

lemma map_filter_map_of:
  "(\<And>p q. f p = Some q \<Longrightarrow> fst q = fst p) \<Longrightarrow> distinct (map fst xs) \<Longrightarrow>
   map_of (List.map_filter f xs) d =
     (case map_of xs d of None \<Rightarrow> None | Some v \<Rightarrow> map_option snd (f (d, v)))"
proof (induction xs)
  case Nil
  show ?case by (simp add: List.map_filter_simps)
next
  case (Cons x xs)
  obtain k v where x: "x = (k, v)" by (cases x)
  have none: "map_of xs k = None" using Cons.prems(2) x by (simp add: map_of_eq_None_iff)
  have ih: "map_of (List.map_filter f xs) d =
     (case map_of xs d of None \<Rightarrow> None | Some v \<Rightarrow> map_option snd (f (d, v)))"
    using Cons by simp
  show ?case
  proof (cases "f x")
    case None
    then show ?thesis using ih x none by (auto simp: List.map_filter_simps)
  next
    case (Some q)
    then have "fst q = k" using Cons.prems(1) x by fastforce
    then obtain w where q: "q = (k, w)" by (cases q) auto
    show ?thesis using ih x none Some q by (auto simp: List.map_filter_simps)
  qed
qed

lemma entry_without_key: "entry_without s p = Some q \<Longrightarrow> fst q = fst p"
  by (auto simp: entry_without_def split: if_splits)

lemma disconnect_loop_distinct:
  "distinct (map fst entries) \<Longrightarrow> distinct (map fst (fst (disconnect_loop s hm md entries cache)))"
  unfolding disconnect_loop_entries by (rule map_filter_distinct[OF entry_without_key])

lemma disconnect_loop_keys:
  "fst ` set (fst (disconnect_loop s hm md entries cache)) \<subseteq> fst ` set entries"
  unfolding disconnect_loop_entries by (rule map_filter_keys[OF entry_without_key])

lemma disconnect_loop_users:
  "distinct (map fst entries) \<Longrightarrow>
   map_of (fst (disconnect_loop s hm md entries cache)) d =
     (case map_of entries d of
        None \<Rightarrow> None
      | Some us \<Rightarrow> if s \<in> set us then room_without s (Some us) else Some us)"
  unfolding disconnect_loop_entries
  by (subst map_filter_map_of[OF entry_without_key])
     (auto simp: entry_without_def room_without_def split: option.splits)

lemma disconnect_loop_removed:
  "p \<in> set (fst (disconnect_loop s hm md entries cache)) \<Longrightarrow> s \<notin> set (snd p)"
  unfolding disconnect_loop_entries
  by (auto simp: List.map_filter_def entry_without_def split: if_splits)

lemma disconnect_loop_nonempty:
  "\<forall>p \<in> set entries. snd p \<noteq> [] \<Longrightarrow>
   p \<in> set (fst (disconnect_loop s hm md entries cache)) \<Longrightarrow> snd p \<noteq> []"
  unfolding disconnect_loop_entries
  by (auto simp: List.map_filter_def entry_without_def split: if_splits)

lemma registry_ok_same:
  "documentUsers srv' = documentUsers srv \<Longrightarrow> socketRooms srv' = socketRooms srv \<Longrightarrow>
   registry_ok srv' = registry_ok srv"
  by (simp add: registry_ok_def)

lemma room_without_Some:
  "room_without s m = Some us \<Longrightarrow> us \<noteq> [] \<and> s \<notin> set us \<and> (\<exists>us0. m = Some us0 \<and> set us \<subseteq> set us0)"
  by (auto simp: room_without_def split: option.splits if_splits)

lemma getDocumentState_resume_fields [simp]:
  "documentUsers (snd (getDocumentState_resume e srv d)) = documentUsers srv"
  "socketRooms (snd (getDocumentState_resume e srv d)) = socketRooms srv"
  "userMetadata (snd (getDocumentState_resume e srv d)) = userMetadata srv"
  "aiService (snd (getDocumentState_resume e srv d)) = aiService srv"
  by (simp_all add: getDocumentState_resume_def Let_def split: option.splits)

lemma updateDocumentState_fields [simp]:
  "documentUsers (fst (snd (updateDocumentState e srv d c))) = documentUsers srv"
  "socketRooms (fst (snd (updateDocumentState e srv d c))) = socketRooms srv"
  "userMetadata (fst (snd (updateDocumentState e srv d c))) = userMetadata srv"
  "aiService (fst (snd (updateDocumentState e srv d c))) = aiService srv"
  "documentCache (fst (snd (updateDocumentState e srv d c))) = documentCache srv"
  by (simp_all add: updateDocumentState_def split: option.splits)

lemma continue_suspended_fields [simp]:
  "documentUsers (fst (continue_suspended e srv k)) = documentUsers srv"
  "socketRooms (fst (continue_suspended e srv k)) = socketRooms srv"
  "userMetadata (fst (continue_suspended e srv k)) = userMetadata srv"
  "aiService (fst (continue_suspended e srv k)) = aiService srv"
  by (cases "(e, srv, k)" rule: continue_suspended.cases;
      simp add: split_beta send_changes_hydrated_def send_changes_update_def split: option.splits)+

lemma track_user_users:
  "map_of (documentUsers (track_user s d srv)) r =
     (if r = d then Some (set_add s (case map_of (documentUsers srv) d of None \<Rightarrow> [] | Some us \<Rightarrow> us))
      else map_of (documentUsers srv) r)"
  by (simp add: track_user_def Let_def update_conv' split: option.splits)

lemma track_user_distinct:
  "distinct (map fst (documentUsers srv)) \<Longrightarrow> distinct (map fst (documentUsers (track_user s d srv)))"
  by (simp add: track_user_def Let_def distinct_update split: option.splits)

lemma track_user_fields [simp]:
  "documentCache (track_user s d srv) = documentCache srv"
  "socketRooms (track_user s d srv) = socketRooms srv"
  "userMetadata (track_user s d srv) = userMetadata srv"
  "aiService (track_user s d srv) = aiService srv"
  by (simp_all add: track_user_def Let_def)

lemma join_document_state:
  "fst (join_document srv s d) =
     track_user s d (socket_join s d
       (leave_rooms s (case socketRooms srv s of None \<Rightarrow> [] | Some rs \<Rightarrow> rs) srv))"
  by (simp add: join_document_def Let_def)

lemma join_document_sockets:
  assumes "socketRooms srv s = Some rooms"
  shows "socketRooms (fst (join_document srv s d)) =
           (socketRooms srv)(s \<mapsto> set_add d (filter (\<lambda>r. r = s) rooms))"
proof
  fix s'
  have eq: "filter (\<lambda>r. r = s \<or> r \<notin> set rooms) rooms = filter (\<lambda>r. r = s) rooms"
    by (rule filter_cong) auto
  show "socketRooms (fst (join_document srv s d)) s' =
           ((socketRooms srv)(s \<mapsto> set_add d (filter (\<lambda>r. r = s) rooms))) s'"
    using assms leave_rooms_sockets_self[of s rooms srv] leave_rooms_sockets_other[of s' s rooms srv] eq
    by (auto simp: join_document_state socket_join_def split: option.splits)
qed

lemma join_document_users:
  assumes "socketRooms srv s = Some rooms"
  shows "map_of (documentUsers (fst (join_document srv s d))) r =
     (if r = d then
        Some (set_add s (case (if d \<in> set rooms \<and> d \<noteq> s then room_without s (map_of (documentUsers srv) d)
                               else map_of (documentUsers srv) d) of
                           None \<Rightarrow> [] | Some us \<Rightarrow> us))
      else if r \<in> set rooms \<and> r \<noteq> s then room_without s (map_of (documentUsers srv) r)
      else map_of (documentUsers srv) r)"
  using assms by (simp add: join_document_state track_user_users leave_rooms_users)

lemma join_document_distinct:
  "distinct (map fst (documentUsers srv)) \<Longrightarrow>
   distinct (map fst (documentUsers (fst (join_document srv s d))))"
  by (simp add: join_document_state track_user_distinct leave_rooms_distinct)

lemma join_document_other [simp]:
  "userMetadata (fst (join_document srv s d)) = userMetadata srv"
  "aiService (fst (join_document srv s d)) = aiService srv"
  by (simp_all add: join_document_state)

lemma set_add_set [simp]: "set (set_add x xs) = insert x (set xs)"
  by (auto simp: set_add_def)

lemma set_add_nonempty [simp]: "set_add x xs \<noteq> []"
  by (auto simp: set_add_def)

lemma join_document_registry_ok:
  assumes ok: "registry_ok srv" and conn: "socketRooms srv s = Some rooms"
  shows "registry_ok (fst (join_document srv s d))"
proof -
  let ?srv' = "fst (join_document srv s d)"
  note U = join_document_users[OF conn, of d]
  note S = join_document_sockets[OF conn, of d]
  have D: "distinct (map fst (documentUsers ?srv'))"
    using ok by (simp add: registry_ok_def join_document_distinct)
  have R0: "\<And>r us x. map_of (documentUsers srv) r = Some us \<Longrightarrow> x \<in> set us \<Longrightarrow>
              \<exists>rs. socketRooms srv x = Some rs \<and> r \<in> set rs"
    using ok by (auto simp: registry_ok_def)
  have N0: "\<And>r us. map_of (documentUsers srv) r = Some us \<Longrightarrow> us \<noteq> []"
    using ok by (auto simp: registry_ok_def)
  have "us \<noteq> [] \<and> (\<forall>x \<in> set us. \<exists>rs. socketRooms ?srv' x = Some rs \<and> r \<in> set rs)"
    if m: "map_of (documentUsers ?srv') r = Some us" for r us
  proof (cases "r = d")
    case True
    let ?old = "if d \<in> set rooms \<and> d \<noteq> s then room_without s (map_of (documentUsers srv) d)
                else map_of (documentUsers srv) d"
    have us: "us = set_add s (case ?old of None \<Rightarrow> [] | Some us \<Rightarrow> us)"
      using m U[of r] True by simp
    have mem: "\<exists>rs. socketRooms ?srv' x = Some rs \<and> d \<in> set rs" if xin: "x \<in> set us" for x
    proof (cases "x = s")
      case True
      then show ?thesis using S by simp
    next
      case False
      then obtain us1 where o: "?old = Some us1" "x \<in> set us1"
        using xin us by (auto split: option.splits)
      then obtain us0 where "map_of (documentUsers srv) d = Some us0" "x \<in> set us0"
        using room_without_Some[of s "map_of (documentUsers srv) d" us1]
        by (auto split: if_splits)
      then show ?thesis using R0 False S by auto
    qed
    show ?thesis using us mem True by simp
  next
    case False
    show ?thesis
    proof (cases "r \<in> set rooms \<and> r \<noteq> s")
      case True
      then have "room_without s (map_of (documentUsers srv) r) = Some us"
        using m U[of r] False by simp
      from room_without_Some[OF this] obtain us0 where
        "us \<noteq> []" "s \<notin> set us" "map_of (documentUsers srv) r = Some us0" "set us \<subseteq> set us0"
        by blast
      then show ?thesis using R0[of r us0] S by auto
    next
      case nl: False
      then have m0: "map_of (documentUsers srv) r = Some us"
        using m U[of r] False by auto
      have "\<exists>rs. socketRooms ?srv' x = Some rs \<and> r \<in> set rs" if "x \<in> set us" for x
      proof (cases "x = s")
        case True
        then have "r \<in> set rooms" using R0[OF m0 that] conn by auto
        then have "r = s" using nl by auto
        then show ?thesis using True S \<open>r \<in> set rooms\<close> by auto
      next
        case False
        then show ?thesis using R0[OF m0 that] S by auto
      qed
      then show ?thesis using N0[OF m0] by blast
    qed
  qed
  then show ?thesis using D unfolding registry_ok_def by blast
qed

lemma leave_document_users:
  "map_of (documentUsers (fst (leave_document srv s d))) r =
     (if r = d then room_without s (map_of (documentUsers srv) d) else map_of (documentUsers srv) r)"
  by (auto simp: leave_document_def Let_def set_delete_def room_without_def update_conv' delete_conv'
      split: option.splits)

lemma leave_document_distinct:
  "distinct (map fst (documentUsers srv)) \<Longrightarrow>
   distinct (map fst (documentUsers (fst (leave_document srv s d))))"
  by (auto simp: leave_document_def Let_def distinct_update distinct_delete split: option.splits)

lemma leave_document_sockets:
  "socketRooms (fst (leave_document srv s d)) = socketRooms (socket_leave s d srv)"
  by (auto simp: leave_document_def Let_def split: option.splits)

lemma leave_document_cache:
  "documentCache (fst (leave_document srv s d)) r =
     (if r = d \<and> map_of (documentUsers srv) d \<noteq> None \<and> room_without s (map_of (documentUsers srv) d) = None
      then None else documentCache srv r)"
  by (auto simp: leave_document_def Let_def set_delete_def room_without_def split: option.splits)

lemma leave_document_other [simp]:
  "userMetadata (fst (leave_document srv s d)) = (userMetadata srv)(s := None)"
  "aiService (fst (leave_document srv s d)) = aiService srv"
  by (auto simp: leave_document_def Let_def split: option.splits)

lemma leave_document_registry_ok:
  assumes ok: "registry_ok srv"
  shows "registry_ok (fst (leave_document srv s d))"
proof -
  let ?srv' = "fst (leave_document srv s d)"
  have D: "distinct (map fst (documentUsers ?srv'))"
    using ok by (simp add: registry_ok_def leave_document_distinct)
  have R0: "\<And>r us x. map_of (documentUsers srv) r = Some us \<Longrightarrow> x \<in> set us \<Longrightarrow>
              \<exists>rs. socketRooms srv x = Some rs \<and> r \<in> set rs"
    using ok by (auto simp: registry_ok_def)
  have N0: "\<And>r us. map_of (documentUsers srv) r = Some us \<Longrightarrow> us \<noteq> []"
    using ok by (auto simp: registry_ok_def)
  have S: "socketRooms ?srv' x = Some rs \<and> r \<in> set rs"
    if "socketRooms srv x = Some rs" "r \<in> set rs" "x \<noteq> s" for x rs r
    using that by (auto simp: leave_document_sockets socket_leave_def split: option.splits)
  have S': "\<exists>rs'. socketRooms ?srv' s = Some rs' \<and> r \<in> set rs'"
    if "socketRooms srv s = Some rs" "r \<in> set rs" "r \<noteq> d" for rs r
    using that by (auto simp: leave_document_sockets socket_leave_def set_delete_def split: option.splits)
  have "us \<noteq> [] \<and> (\<forall>x \<in> set us. \<exists>rs. socketRooms ?srv' x = Some rs \<and> r \<in> set rs)"
    if m: "map_of (documentUsers ?srv') r = Some us" for r us
  proof (cases "r = d")
    case True
    then have "room_without s (map_of (documentUsers srv) d) = Some us"
      using m by (simp add: leave_document_users)
    from room_without_Some[OF this] obtain us0 where
      "us \<noteq> []" "s \<notin> set us" "map_of (documentUsers srv) d = Some us0" "set us \<subseteq> set us0"
      by blast
    then show ?thesis using R0[of d us0] S True by (metis subsetD)
  next
    case False
    then have m0: "map_of (documentUsers srv) r = Some us"
      using m by (simp add: leave_document_users)
    have "\<exists>rs. socketRooms ?srv' x = Some rs \<and> r \<in> set rs" if xin: "x \<in> set us" for x
      using R0[OF m0 xin] S[of x _ r] S'[of _ r] False by (cases "x = s") auto
    then show ?thesis using N0[OF m0] by blast
  qed
  then show ?thesis using D unfolding registry_ok_def by blast
qed

lemma disconnect_users:
  "distinct (map fst (documentUsers srv)) \<Longrightarrow>
   map_of (documentUsers (fst (disconnect srv s))) d =
     (case map_of (documentUsers srv) d of
        None \<Rightarrow> None
      | Some us \<Rightarrow> if s \<in> set us then room_without s (Some us) else Some us)"
  using disconnect_loop_users[of "documentUsers srv" s "userMetadata srv s \<noteq> None" "userMetadata srv" "documentCache srv" d]
  by (simp add: disconnect_def split_beta)

lemma disconnect_entries:
  "documentUsers (fst (disconnect srv s)) = List.map_filter (entry_without s) (documentUsers srv)"
  using disconnect_loop_entries[of s "userMetadata srv s \<noteq> None" "userMetadata srv" "documentUsers srv" "documentCache srv"]
  by (simp add: disconnect_def split_beta)

lemma disconnect_cache:
  "documentCache (fst (disconnect srv s)) d =
     (if \<exists>us. (d, us) \<in> set (documentUsers srv) \<and> s \<in> set us \<and> removeAll s us = [] then None
      else documentCache srv d)"
  using disconnect_loop_cache[of s "userMetadata srv s \<noteq> None" "userMetadata srv" "documentUsers srv" "documentCache srv" d]
  by (simp add: disconnect_def split_beta)

lemma disconnect_other [simp]:
  "userMetadata (fst (disconnect srv s)) = (userMetadata srv)(s := None)"
  "aiService (fst (disconnect srv s)) = aiService srv"
  "socketRooms (fst (disconnect srv s)) = socketRooms srv"
  by (simp_all add: disconnect_def split_beta)

lemma disconnect_registry_ok:
  assumes ok: "registry_ok srv"
  shows "registry_ok (fst (disconnect (srv\<lparr>socketRooms := (socketRooms srv)(s := None)\<rparr>) s))"
proof -
  let ?srvd = "srv\<lparr>socketRooms := (socketRooms srv)(s := None)\<rparr>"
  let ?srv' = "fst (disconnect ?srvd s)"
  have D0: "distinct (map fst (documentUsers ?srvd))" using ok by (simp add: registry_ok_def)
  have D: "distinct (map fst (documentUsers ?srv'))"
    using D0 by (simp add: disconnect_entries map_filter_distinct[OF entry_without_key])
  have R0: "\<And>r us x. map_of (documentUsers srv) r = Some us \<Longrightarrow> x \<in> set us \<Longrightarrow>
              \<exists>rs. socketRooms srv x = Some rs \<and> r \<in> set rs"
    using ok by (auto simp: registry_ok_def)
  have N0: "\<And>r us. map_of (documentUsers srv) r = Some us \<Longrightarrow> us \<noteq> []"
    using ok by (auto simp: registry_ok_def)
  have "us \<noteq> [] \<and> (\<forall>x \<in> set us. \<exists>rs. socketRooms ?srv' x = Some rs \<and> r \<in> set rs)"
    if m: "map_of (documentUsers ?srv') r = Some us" for r us
  proof -
    from m disconnect_users[OF D0, of s r]
    obtain us0 where m0: "map_of (documentUsers srv) r = Some us0"
      and c: "(if s \<in> set us0 then room_without s (Some us0) else Some us0) = Some us"
      by (auto split: option.splits)
    have sub: "us \<noteq> [] \<and> s \<notin> set us \<and> set us \<subseteq> set us0"
    proof (cases "s \<in> set us0")
      case True
      then show ?thesis using c room_without_Some[of s "Some us0" us] by auto
    next
      case False
      then show ?thesis using c N0[OF m0] by auto
    qed
    have "\<exists>rs. socketRooms ?srv' x = Some rs \<and> r \<in> set rs" if xin: "x \<in> set us" for x
    proof -
      have "x \<noteq> s" "x \<in> set us0" using sub xin by auto
      then show ?thesis using R0[OF m0] by auto
    qed
    then show ?thesis using sub by blast
  qed
  then show ?thesis using D unfolding registry_ok_def by blast
qed

lemma connect_registry_ok:
  assumes ok: "registry_ok srv" and fresh: "socketRooms srv s = None"
  shows "registry_ok (srv\<lparr>socketRooms := (socketRooms srv)(s \<mapsto> [s])\<rparr>)"
  using assms unfolding registry_ok_def by (auto, metis option.distinct(1))

lemma send_changes_update_fields [simp]:
  "documentUsers (fst (send_changes_update e srv s d c ref)) = documentUsers srv"
  "socketRooms (fst (send_changes_update e srv s d c ref)) = socketRooms srv"
  "userMetadata (fst (send_changes_update e srv s d c ref)) = userMetadata srv"
  "aiService (fst (send_changes_update e srv s d c ref)) = aiService srv"
  "documentCache (fst (send_changes_update e srv s d c ref)) = documentCache srv"
  by (simp_all add: send_changes_update_def split_beta)

lemma send_changes_fields [simp]:
  "documentUsers (fst (send_changes e srv s d c)) = documentUsers srv"
  "socketRooms (fst (send_changes e srv s d c)) = socketRooms srv"
  "userMetadata (fst (send_changes e srv s d c)) = userMetadata srv"
  "aiService (fst (send_changes e srv s d c)) = aiService srv"
  "documentCache (fst (send_changes e srv s d c)) = documentCache srv"
  by (simp_all add: send_changes_def split: option.splits)

lemma ai_generate_fields [simp]:
  "documentUsers (fst (ai_generate e srv s req resp)) = documentUsers srv"
  "socketRooms (fst (ai_generate e srv s req resp)) = socketRooms srv"
  "userMetadata (fst (ai_generate e srv s req resp)) = userMetadata srv"
  "documentCache (fst (ai_generate e srv s req resp)) = documentCache srv"
  by (auto simp: ai_generate_def split: option.splits prod.splits)

lemma handle_Disconnect:
  "handle e rt s Disconnect =
     (rt\<lparr>rt_server := fst (disconnect ((rt_server rt)\<lparr>socketRooms := (socketRooms (rt_server rt))(s := None)\<rparr>) s)\<rparr>,
      snd (disconnect ((rt_server rt)\<lparr>socketRooms := (socketRooms (rt_server rt))(s := None)\<rparr>) s))"
  by (simp add: handle_def Let_def split_beta)

lemma handle_LeaveDocument:
  "handle e rt s (LeaveDocument d) =
     (rt\<lparr>rt_server := fst (leave_document (rt_server rt) s d)\<rparr>, snd (leave_document (rt_server rt) s d))"
  by (simp add: handle_def Let_def split_beta)

lemma handle_JoinDocument:
  "handle e rt s (JoinDocument d) =
     (rt\<lparr>rt_server := fst (join_document (rt_server rt) s d),
         rt_waiting := rt_waiting rt @ [snd (join_document (rt_server rt) s d)]\<rparr>, [])"
  by (simp add: handle_def Let_def split_beta)

lemma rt_step_Continue:
  "i < length (rt_waiting rt) \<Longrightarrow>
   rt_step e rt (Continue i) =
     (rt\<lparr>rt_server := fst (continue_suspended e (rt_server rt) (rt_waiting rt ! i)),
         rt_waiting := (case snd (snd (continue_suspended e (rt_server rt) (rt_waiting rt ! i))) of
                          None \<Rightarrow> take i (rt_waiting rt) @ drop (Suc i) (rt_waiting rt)
                        | Some k \<Rightarrow> (rt_waiting rt)[i := k])\<rparr>,
      fst (snd (continue_suspended e (rt_server rt) (rt_waiting rt ! i))))"
  by (cases "continue_suspended e (rt_server rt) (rt_waiting rt ! i)")
     (simp add: rt_step_def split: option.splits)

lemma rt_step_Continue_skip:
  "\<not> i < length (rt_waiting rt) \<Longrightarrow> rt_step e rt (Continue i) = (rt, [])"
  by (simp add: rt_step_def)

lemma rt_step_Continue_server:
  "rt_server (fst (rt_step e rt (Continue i))) =
     (if i < length (rt_waiting rt) then fst (continue_suspended e (rt_server rt) (rt_waiting rt ! i))
      else rt_server rt)"
  by (simp add: rt_step_Continue rt_step_Continue_skip)

lemma rt_step_registry_ok:
  assumes ok: "registry_ok (rt_server rt)"
  shows "registry_ok (rt_server (fst (rt_step e rt x)))"
proof (cases x)
  case (Socket s ev)
  show ?thesis
  proof (cases "(ev = Connect) = (socketRooms (rt_server rt) s = None)")
    case False
    then show ?thesis using ok Socket by (auto simp: rt_step_def)
  next
    case True
    show ?thesis
    proof (cases ev)
      case Connect
      then show ?thesis using ok Socket True connect_registry_ok[OF ok, of s]
        by (simp add: rt_step_def handle_def Let_def)
    next
      case (JoinDocument d)
      then obtain rooms where "socketRooms (rt_server rt) s = Some rooms" using True by auto
      from join_document_registry_ok[OF ok this, of d] show ?thesis
        using Socket True JoinDocument by (simp add: rt_step_def handle_def Let_def split_beta)
    next
      case (SendChanges d c)
      then show ?thesis using Socket True
          registry_ok_same[of "fst (send_changes e (rt_server rt) s d c)" "rt_server rt"] ok
        by (simp add: rt_step_def handle_def Let_def split_beta)
    next
      case (RequestSync d)
      then show ?thesis using Socket True ok
        by (simp add: rt_step_def handle_def Let_def registry_ok_def)
    next
      case (SetUserIdentity d u c)
      then show ?thesis using Socket True ok
        by (simp add: rt_step_def handle_def Let_def set_user_identity_def Let_def registry_ok_def)
    next
      case (CursorMove d p sel)
      then show ?thesis using Socket True ok
        by (simp add: rt_step_def handle_def Let_def cursor_move_def split: option.splits)
    next
      case (AiGenerate req resp)
      then show ?thesis using Socket True
          registry_ok_same[of "fst (ai_generate e (rt_server rt) s req resp)" "rt_server rt"] ok
        by (simp add: rt_step_def handle_def Let_def split_beta)
    next
      case Disconnect
      then show ?thesis using Socket True disconnect_registry_ok[OF ok, of s]
        by (simp add: rt_step_def handle_def Let_def split_beta)
    next
      case (LeaveDocument d)
      then show ?thesis using Socket True leave_document_registry_ok[OF ok, of s d]
        by (simp add: rt_step_def handle_def Let_def split_beta)
    qed
  qed
next
  case (Resume i)
  then show ?thesis using ok by (simp add: rt_step_def split_beta split: option.splits)
next
  case (Continue i)
  then show ?thesis using ok
      registry_ok_same[of "fst (continue_suspended e (rt_server rt) (rt_waiting rt ! i))" "rt_server rt"]
    by (simp add: rt_step_Continue_server)
next
  case Timer
  then show ?thesis using ok by (simp add: rt_step_def registry_ok_def split: option.splits)
qed

lemma rt_run_registry_ok:
  "registry_ok (rt_server rt) \<Longrightarrow> registry_ok (rt_server (fst (rt_run rt evs)))"
proof (induction evs arbitrary: rt)
  case Nil
  then show ?case by simp
next
  case (Cons p evs)
  obtain e x where p: "p = (e, x)" by (cases p)
  have "registry_ok (rt_server (fst (rt_step e rt x)))" using Cons.prems by (rule rt_step_registry_ok)
  from Cons.IH[OF this] show ?case using p by (simp add: split_beta)
qed

lemma init_registry_ok: "registry_ok (rt_server (init_runtime k))"
  by (simp add: init_runtime_def init_server_def registry_ok_def)

lemma reachable_registry_ok:
  "rt_run (init_runtime k) evs = (rt, tr) \<Longrightarrow> registry_ok (rt_server rt)"
  using rt_run_registry_ok[OF init_registry_ok, of k evs] by simp

lemma leave_rooms_cache_evicted:
  "r \<in> set rooms \<Longrightarrow> r \<noteq> s \<Longrightarrow> map_of (documentUsers srv) r \<noteq> None \<Longrightarrow>
   room_without s (map_of (documentUsers srv) r) = None \<Longrightarrow>
   documentCache (leave_rooms s rooms srv) r = None"
proof (induction rooms arbitrary: srv)
  case Nil
  then show ?case by simp
next
  case (Cons room rooms)
  show ?case
  proof (cases "room = r")
    case True
    then have "documentCache (leave_room s room srv) r = None"
      using Cons.prems by (simp add: leave_room_cache)
    then show ?thesis by (simp add: leave_rooms_cache_mono)
  next
    case False
    then have "r \<in> set rooms" using Cons.prems(1) by simp
    moreover have "map_of (documentUsers (leave_room s room srv)) r = map_of (documentUsers srv) r"
      using False by (simp add: leave_room_users)
    ultimately show ?thesis using Cons.IH[of "leave_room s room srv"] Cons.prems by simp
  qed
qed

lemma join_document_cache_other:
  "r \<noteq> d \<Longrightarrow>
   documentCache (fst (join_document srv s d)) r =
     documentCache (leave_rooms s (case socketRooms srv s of None \<Rightarrow> [] | Some rs \<Rightarrow> rs) srv) r"
  by (simp add: join_document_state)

lemma room_without_sole: "set us = {s} \<Longrightarrow> room_without s (Some us) = None"
  by (simp add: room_without_def removeAll_filter_not_eq filter_empty_conv)

lemma room_without_None_iff:
  "room_without s (Some us) = None \<longleftrightarrow> removeAll s us = []"
  by (auto simp: room_without_def)

lemma keys_map_of: "d \<in> fst ` set al \<longleftrightarrow> map_of al d \<noteq> None"
  by (simp add: map_of_eq_None_iff)


lemma rt_step_users_same:
  assumes "\<forall>s. x \<noteq> Socket s Disconnect" "\<forall>s d. x \<noteq> Socket s (LeaveDocument d)"
    "\<forall>s d. x \<noteq> Socket s (JoinDocument d)"
  shows "documentUsers (rt_server (fst (rt_step e rt x))) = documentUsers (rt_server rt)"
proof (cases x)
  case (Socket s ev)
  then show ?thesis using assms
    by (cases ev) (auto simp: rt_step_def handle_def Let_def split_beta set_user_identity_def cursor_move_def
        split: option.splits)
next
  case (Resume i)
  then show ?thesis by (simp add: rt_step_def split_beta split: option.splits)
next
  case (Continue i)
  then show ?thesis by (simp add: rt_step_Continue_server)
next
  case Timer
  then show ?thesis by (simp add: rt_step_def split: option.splits)
qed

lemma step_room_deleted:
  assumes ok: "registry_ok (rt_server rt)"
    and before: "map_of (documentUsers (rt_server rt)) d \<noteq> None"
    and after: "map_of (documentUsers (rt_server (fst (rt_step e rt x)))) d = None"
  shows "documentCache (rt_server (fst (rt_step e rt x))) d = None"
proof -
  let ?srv = "rt_server rt"
  have D: "distinct (map fst (documentUsers ?srv))" using ok by (simp add: registry_ok_def)
  obtain us where us: "map_of (documentUsers ?srv) d = Some us" using before by auto
  consider (dis) s where "x = Socket s Disconnect" "socketRooms ?srv s \<noteq> None"
    | (leave) s d' where "x = Socket s (LeaveDocument d')" "socketRooms ?srv s \<noteq> None"
    | (join) s d' where "x = Socket s (JoinDocument d')" "socketRooms ?srv s \<noteq> None"
    | (same) "documentUsers (rt_server (fst (rt_step e rt x))) = documentUsers ?srv"
  proof (cases "documentUsers (rt_server (fst (rt_step e rt x))) = documentUsers ?srv")
    case True
    then show ?thesis using that(4) by blast
  next
    case False
    then obtain s ev where x: "x = Socket s ev" "ev = Disconnect \<or> (\<exists>d'. ev = LeaveDocument d') \<or> (\<exists>d'. ev = JoinDocument d')"
      using rt_step_users_same[of x e rt] by (cases x) auto
    have "socketRooms ?srv s \<noteq> None"
    proof (rule ccontr)
      assume "\<not> socketRooms ?srv s \<noteq> None"
      then have "rt_step e rt x = (rt, [])" using x by (auto simp: rt_step_def)
      then show False using False by simp
    qed
    then show ?thesis using x that(1,2,3) by blast
  qed
  then show ?thesis
  proof cases
    case dis
    let ?srvd = "?srv\<lparr>socketRooms := (socketRooms ?srv)(s := None)\<rparr>"
    have st: "rt_server (fst (rt_step e rt x)) = fst (disconnect ?srvd s)"
      using dis by (simp add: rt_step_def handle_Disconnect)
    have D0: "distinct (map fst (documentUsers ?srvd))" using D by simp
    have "s \<in> set us \<and> removeAll s us = []"
      using after us disconnect_users[OF D0, of s d] st
      by (auto simp: room_without_def split: if_splits)
    moreover have "(d, us) \<in> set (documentUsers ?srv)" using us by (rule map_of_SomeD)
    ultimately show ?thesis using st disconnect_cache[of ?srvd s d] by auto
  next
    case leave
    have st: "rt_server (fst (rt_step e rt x)) = fst (leave_document ?srv s d')"
      using leave by (simp add: rt_step_def handle_LeaveDocument)
    then show ?thesis using after us
      by (auto simp: leave_document_users leave_document_cache split: if_splits)
  next
    case join
    then obtain rooms where rooms: "socketRooms ?srv s = Some rooms" by auto
    have st: "rt_server (fst (rt_step e rt x)) = fst (join_document ?srv s d')"
      using join by (simp add: rt_step_def handle_JoinDocument)
    have c: "d \<noteq> d' \<and> d \<in> set rooms \<and> d \<noteq> s \<and> room_without s (map_of (documentUsers ?srv) d) = None"
      using after us st join_document_users[OF rooms, of d' d]
      by (auto split: if_splits)
    then have "documentCache (leave_rooms s rooms ?srv) d = None"
      using leave_rooms_cache_evicted[of d rooms s ?srv] before by simp
    then show ?thesis using st c rooms by (simp add: join_document_cache_other)
  next
    case same
    then show ?thesis using before after by simp
  qed
qed

lemma disconnect_removed:
  "p \<in> set (documentUsers (fst (disconnect srv s))) \<Longrightarrow> s \<notin> set (snd p)"
  using disconnect_loop_removed[of p s "userMetadata srv s \<noteq> None" "userMetadata srv" "documentUsers srv" "documentCache srv"]
  by (simp add: disconnect_def split_beta)

lemma receives_connected: "receives srv t r \<Longrightarrow> socketRooms srv r \<noteq> None"
  by (cases t) (auto split: option.splits)

lemma delivered_disconnected: "socketRooms (fst p) r = None \<Longrightarrow> delivered r p = None"
  using receives_connected[of "fst p" _ r]
  by (auto simp: delivered_def split: effect.splits)

lemma deliveries_append: "deliveries r (xs @ ys) = deliveries r xs @ deliveries r ys"
  by (simp add: deliveries_def List.map_filter_def)

lemma deliveries_disconnected:
  "socketRooms srv r = None \<Longrightarrow> deliveries r (map (Pair srv) effs) = []"
  by (induction effs) (simp_all add: deliveries_def List.map_filter_simps delivered_disconnected)

lemma set_user_identity_fields [simp]:
  "socketRooms (fst (set_user_identity srv s d u c)) = socketRooms srv"
  "documentUsers (fst (set_user_identity srv s d u c)) = documentUsers srv"
  by (simp_all add: set_user_identity_def Let_def)

lemma cursor_move_state [simp]: "fst (cursor_move srv s d p sel) = srv"
  by (simp add: cursor_move_def split: option.splits)

lemma handle_sockets_other:
  assumes "r \<noteq> s" and "socketRooms (rt_server rt) s \<noteq> None \<or> ev = Connect"
  shows "socketRooms (rt_server (fst (handle e rt s ev))) r = socketRooms (rt_server rt) r"
proof (cases ev)
  case (JoinDocument d)
  obtain rooms where "socketRooms (rt_server rt) s = Some rooms" using assms(2) JoinDocument by auto
  from join_document_sockets[OF this, of d] show ?thesis
    using JoinDocument assms(1) by (simp add: handle_JoinDocument)
next
  case (LeaveDocument d)
  then show ?thesis using assms(1)
    by (auto simp: handle_LeaveDocument leave_document_sockets socket_leave_def split: option.splits)
next
  case Disconnect
  then show ?thesis using assms(1) by (simp add: handle_Disconnect)
qed (simp_all add: handle_def Let_def split_beta assms(1))

lemma rt_step_sockets_disconnected:
  assumes "socketRooms (rt_server rt) r = None" and "x \<noteq> Socket r Connect"
  shows "socketRooms (rt_server (fst (rt_step e rt x))) r = None"
proof (cases x)
  case (Socket s ev)
  show ?thesis
  proof (cases "s = r")
    case True
    then have "ev \<noteq> Connect" using assms(2) Socket by simp
    then show ?thesis using assms(1) Socket True by (simp add: rt_step_def)
  next
    case False
    show ?thesis
    proof (cases "(ev = Connect) = (socketRooms (rt_server rt) s = None)")
      case True
      then have "socketRooms (rt_server rt) s \<noteq> None \<or> ev = Connect" by auto
      from handle_sockets_other[OF _ this, of r e] show ?thesis
        using False True assms(1) Socket by (simp add: rt_step_def)
    next
      case False
      then show ?thesis using assms(1) Socket by (auto simp: rt_step_def)
    qed
  qed
next
  case (Resume i)
  then show ?thesis using assms(1) by (simp add: rt_step_def split_beta split: option.splits)
next
  case (Continue i)
  then show ?thesis using assms(1) by (simp add: rt_step_Continue_server)
next
  case Timer
  then show ?thesis using assms(1) by (simp add: rt_step_def split: option.splits)
qed

lemma rt_run_disconnected:
  "socketRooms (rt_server rt) r = None \<Longrightarrow> \<forall>p \<in> set evs. snd p \<noteq> Socket r Connect \<Longrightarrow>
   deliveries r (snd (rt_run rt evs)) = [] \<and> socketRooms (rt_server (fst (rt_run rt evs))) r = None"
proof (induction evs arbitrary: rt)
  case Nil
  show ?case using Nil by (simp add: deliveries_def List.map_filter_simps)
next
  case (Cons p evs)
  obtain e x where p: "p = (e, x)" by (cases p)
  let ?rt1 = "fst (rt_step e rt x)"
  have x: "x \<noteq> Socket r Connect" using Cons.prems(2) p by simp
  have s1: "socketRooms (rt_server ?rt1) r = None"
    using rt_step_sockets_disconnected[OF Cons.prems(1) x] .
  have ih: "deliveries r (snd (rt_run ?rt1 evs)) = [] \<and> socketRooms (rt_server (fst (rt_run ?rt1 evs))) r = None"
    using Cons.IH[OF s1] Cons.prems(2) by simp
  show ?case using ih p deliveries_disconnected[OF s1]
    by (simp add: split_beta deliveries_append)
qed

lemma rt_step_Disconnect_pending:
  "rt_pending (fst (rt_step e rt (Socket s Disconnect))) = rt_pending rt"
  by (simp add: rt_step_def handle_Disconnect)

lemma rt_step_Resume_chunk:
  "i < length (rt_pending rt) \<Longrightarrow> gen_chunks (rt_pending rt ! i) = c # cs \<Longrightarrow>
   snd (rt_step e rt (Resume i)) = [Emit (ToSocket (gen_socket (rt_pending rt ! i))) (AiChunk c)]"
  by (simp add: rt_step_def ai_generate_resume_def)

lemma step_sole_member:
  assumes ok: "registry_ok (rt_server rt)"
    and conn: "socketRooms (rt_server rt) s \<noteq> None"
    and us: "map_of (documentUsers (rt_server rt)) d = Some us"
    and one: "set us = {s}"
    and x: "x = Socket s (LeaveDocument d) \<or> x = Socket s Disconnect
              \<or> (\<exists>d'. x = Socket s (JoinDocument d') \<and> d' \<noteq> d \<and> d \<noteq> s)"
  shows "d \<notin> fst ` set (documentUsers (rt_server (fst (rt_step e rt x))))
       \<and> documentCache (rt_server (fst (rt_step e rt x))) d = None"
proof -
  let ?srv = "rt_server rt"
  let ?rt' = "fst (rt_step e rt x)"
  have D: "distinct (map fst (documentUsers ?srv))" using ok by (simp add: registry_ok_def)
  have gone: "map_of (documentUsers (rt_server ?rt')) d = None"
    using x
  proof (elim disjE exE conjE)
    assume "x = Socket s (LeaveDocument d)"
    then have "rt_server ?rt' = fst (leave_document ?srv s d)"
      using conn by (simp add: rt_step_def handle_LeaveDocument)
    then show ?thesis using us room_without_sole[OF one] by (simp add: leave_document_users)
  next
    assume "x = Socket s Disconnect"
    then have "rt_server ?rt' = fst (disconnect (?srv\<lparr>socketRooms := (socketRooms ?srv)(s := None)\<rparr>) s)"
      using conn by (simp add: rt_step_def handle_Disconnect)
    then show ?thesis using us one room_without_sole[OF one] D
      by (simp add: disconnect_users)
  next
    fix d'
    assume j: "x = Socket s (JoinDocument d')" "d' \<noteq> d" "d \<noteq> s"
    obtain rooms where rooms: "socketRooms ?srv s = Some rooms" using conn by auto
    have "d \<in> set rooms" using ok us one rooms unfolding registry_ok_def by fastforce
    moreover have "rt_server ?rt' = fst (join_document ?srv s d')"
      using j conn by (simp add: rt_step_def handle_JoinDocument)
    ultimately show ?thesis using us j room_without_sole[OF one]
      by (simp add: join_document_users[OF rooms])
  qed
  then have "d \<notin> fst ` set (documentUsers (rt_server ?rt'))" by (simp add: keys_map_of)
  moreover have "documentCache (rt_server ?rt') d = None"
    using step_room_deleted[OF ok _ gone] us by simp
  ultimately show ?thesis by simp
qed

text \<open>
  The sample state is reached from the start of the process, and what the disconnect of
  its only socket makes of it.
\<close>

lemma sample_streaming_reached:
  "rt_run (init_runtime True) sample_events =
     (sample_streaming, snd (rt_run (init_runtime True) sample_events))"
proof -
  have "fst (rt_run (init_runtime True) sample_events) = sample_streaming"
    by (simp add: sample_events_def sample_streaming_def init_runtime_def init_server_def sample_env_def
        sample_request_def sample_response_def rt_step_def handle_def
        join_document_def track_user_def leave_room_def getDocumentState_def getDocumentState_resume_def
        join_document_resume_def deref_def socket_join_def
        socket_leave_def set_add_def set_delete_def set_user_identity_def user_list_def
        ai_generate_def ai_generate_data_def generateCodeStream_def checkRateLimit_def buildPrompt_def ai_generate_resume_def
        Let_def List.map_filter_simps)
  then show ?thesis by (metis prod.collapse)
qed

lemma sample_disconnect:
  "rt_step sample_env sample_streaming (Socket ''a'' Disconnect) =
     (\<lparr>rt_server =
         \<lparr>documentCache = Map.empty,
          documentStates = [\<lparr>content = ''text'', lastModified = 0, version = 1\<rparr>],
          documentUsers = [],
          userMetadata = Map.empty,
          aiService = Some \<lparr>rateLimits = [''a'' \<mapsto> \<lparr>count = 1, resetTime = 60000\<rparr>]\<rparr>,
          socketRooms = Map.empty\<rparr>,
       rt_pending = [\<lparr>gen_socket = ''a'', gen_chunks = [''b''], gen_failure = None\<rparr>],
       rt_waiting = []\<rparr>,
      [Emit (ToRoom ''doc'') (UserCountUpdate 0),
       Emit (ToRoom ''doc'') (UsersUpdate []),
       Emit (ToRoom ''doc'') (CursorRemove ''a'')])"
  by (simp add: sample_streaming_def rt_step_def handle_def disconnect_def set_delete_def
      user_list_def Let_def List.map_filter_simps)

section \<open>Steps of the document handlers\<close>

lemma rt_step_Socket:
  "socketRooms (rt_server rt) s \<noteq> None \<Longrightarrow> ev \<noteq> Connect \<Longrightarrow>
   rt_step e rt (Socket s ev) = handle e rt s ev"
  by (auto simp: rt_step_def)

lemma handle_SendChanges:
  "handle e rt s (SendChanges d c) =
     (rt\<lparr>rt_server := fst (send_changes e (rt_server rt) s d c),
         rt_waiting := rt_waiting rt @ [snd (snd (send_changes e (rt_server rt) s d c))]\<rparr>,
      fst (snd (send_changes e (rt_server rt) s d c)))"
  by (simp add: handle_def Let_def split_beta)

lemma handle_RequestSync:
  "handle e rt s (RequestSync d) =
     (rt\<lparr>rt_waiting := rt_waiting rt @ [request_sync (rt_server rt) s d]\<rparr>, [])"
  by (simp add: handle_def Let_def)

lemma send_changes_miss:
  "documentCache srv d = None \<Longrightarrow>
   send_changes e srv s d c = (srv, [], Fetching d (SendCaller s d c))"
  by (simp add: send_changes_def getDocumentState_def)


lemma request_sync_miss:
  "documentCache srv d = None \<Longrightarrow> request_sync srv s d = Fetching d (SyncCaller s d)"
  by (simp add: request_sync_def getDocumentState_def)


lemma continue_Fetching:
  "continue_suspended e srv (Fetching d k) =
     (snd (getDocumentState_resume e srv d), [], Some (Returned k (fst (getDocumentState_resume e srv d))))"
  by (simp add: split_beta)

declare continue_suspended.simps(1) [simp del]

lemma fetch_not_found:
  "documents e d = None \<Longrightarrow>
   continue_suspended e srv (Fetching d k) = (srv, [], Some (Returned k None))"
  by (simp add: continue_Fetching getDocumentState_resume_def)


lemma nth_append_new [simp]: "(xs @ [k]) ! length xs = k"
  by simp

lemma update_append_new [simp]: "(xs @ [k])[length xs := k'] = xs @ [k']"
  by simp

lemma remove_append_new [simp]: "take (length xs) (xs @ [k]) @ drop (Suc (length xs)) (xs @ [k]) = xs"
  by simp

lemma runtime_same [simp]:
  "rt\<lparr>rt_server := rt_server rt, rt_waiting := rt_waiting rt\<rparr> = rt"
  "rt\<lparr>rt_waiting := rt_waiting rt\<rparr> = rt"
  "rt\<lparr>rt_server := rt_server rt\<rparr> = rt"
  by simp_all

lemma rt_step_Continue_last:
  "rt_step e (rt\<lparr>rt_waiting := ws @ [k]\<rparr>) (Continue (length ws)) =
     (case continue_suspended e (rt_server rt) k of
        (srv', effs, None) \<Rightarrow> (rt\<lparr>rt_server := srv', rt_waiting := ws\<rparr>, effs)
      | (srv', effs, Some k') \<Rightarrow> (rt\<lparr>rt_server := srv', rt_waiting := ws @ [k']\<rparr>, effs))"
  by (simp add: rt_step_def split: prod.splits option.splits)


section \<open>The rate limiter\<close>

lemma checkRateLimit_other:
  "u' \<noteq> u \<Longrightarrow> rateLimits (snd (checkRateLimit t ai u')) u = rateLimits ai u"
  by (simp add: checkRateLimit_def split: option.splits)

lemma checkRateLimit_in_window:
  "rateLimits ai u = Some \<lparr>count = c, resetTime = r\<rparr> \<Longrightarrow> t \<le> r \<Longrightarrow>
   checkRateLimit t ai u =
     (if c \<ge> 10 then (False, ai)
      else (True, ai\<lparr>rateLimits := (rateLimits ai)(u \<mapsto> \<lparr>count = c + 1, resetTime = r\<rparr>)\<rparr>))"
  by (simp add: checkRateLimit_def MAX_REQUESTS_PER_MINUTE_def)

lemma checkRateLimit_fresh:
  "(case rateLimits ai u of None \<Rightarrow> True | Some l \<Rightarrow> t > resetTime l) \<Longrightarrow>
   checkRateLimit t ai u =
     (True, ai\<lparr>rateLimits := (rateLimits ai)(u \<mapsto> \<lparr>count = 1, resetTime = t + 60000\<rparr>)\<rparr>)"
  by (auto simp: checkRateLimit_def split: option.splits)

lemma cleanupRateLimits_in_window:
  "rateLimits ai u = Some \<lparr>count = c, resetTime = r\<rparr> \<Longrightarrow> t \<le> r \<Longrightarrow>
   rateLimits (cleanupRateLimits t ai) u = Some \<lparr>count = c, resetTime = r\<rparr>"
  by (simp add: cleanupRateLimits_def)

lemma handle_AiGenerate:
  "handle e rt s (AiGenerate req resp) =
     (rt\<lparr>rt_server := fst (ai_generate e (rt_server rt) s req resp),
         rt_pending := rt_pending rt @
           (case snd (snd (ai_generate e (rt_server rt) s req resp)) of None \<Rightarrow> [] | Some g \<Rightarrow> [g])\<rparr>,
      fst (snd (ai_generate e (rt_server rt) s req resp)))"
  by (simp add: handle_def Let_def split_beta)

lemma ai_generate_admitted:
  assumes "userMetadata srv u \<noteq> None" and "aiService srv = Some ai"
    and "checkRateLimit (now e) ai u = (True, ai')"
  shows "ai_generate e srv u req resp =
     (srv\<lparr>aiService := Some ai'\<rparr>,
      (case buildPrompt (ai_generate_data req) of
         Inl msg \<Rightarrow> []
       | Inr prompt \<Rightarrow> [GenerateContentStream prompt]),
      Some (case buildPrompt (ai_generate_data req) of
              Inl msg \<Rightarrow> \<lparr>gen_socket = u, gen_chunks = [], gen_failure = Some msg\<rparr>
            | Inr prompt \<Rightarrow>
                \<lparr>gen_socket = u, gen_chunks = chunks resp,
                 gen_failure = map_option generation_failed (failure resp)\<rparr>))"
  using assms by (auto simp: ai_generate_def generateCodeStream_def split: sum.splits)

lemma ai_generate_refused:
  assumes "userMetadata srv u \<noteq> None" and "aiService srv = Some ai"
    and "checkRateLimit (now e) ai u = (False, ai)"
  shows "ai_generate e srv u req resp =
     (srv, [],
      Some \<lparr>gen_socket = u, gen_chunks = [],
            gen_failure = Some ''Rate limit exceeded. Please try again in a minute.''\<rparr>)"
proof -
  have "srv\<lparr>aiService := Some ai\<rparr> = srv" using assms(2) by simp
  then show ?thesis using assms by (auto simp: ai_generate_def generateCodeStream_def)
qed

lemma step_admitted:
  assumes "socketRooms (rt_server rt) u \<noteq> None" and "userMetadata (rt_server rt) u \<noteq> None"
    and "aiService (rt_server rt) = Some ai" and "checkRateLimit (now e) ai u = (True, ai')"
  shows "served u \<lparr>out_request = req, out_response = resp, out_before = rt,
                   out_after = fst (rt_step e rt (Socket u (AiGenerate req resp))),
                   out_effects = snd (rt_step e rt (Socket u (AiGenerate req resp)))\<rparr>"
    and "rt_server (fst (rt_step e rt (Socket u (AiGenerate req resp)))) = (rt_server rt)\<lparr>aiService := Some ai'\<rparr>"
  using assms(1)
  by (simp_all add: rt_step_Socket handle_AiGenerate ai_generate_admitted[OF assms(2,3,4)] served_def
      split: sum.splits)

lemma step_refused:
  assumes "socketRooms (rt_server rt) u \<noteq> None" and "userMetadata (rt_server rt) u \<noteq> None"
    and "aiService (rt_server rt) = Some ai" and "checkRateLimit (now e) ai u = (False, ai)"
  shows "refused u \<lparr>out_request = req, out_response = resp, out_before = rt,
                    out_after = fst (rt_step e rt (Socket u (AiGenerate req resp))),
                    out_effects = snd (rt_step e rt (Socket u (AiGenerate req resp)))\<rparr>"
    and "rt_server (fst (rt_step e rt (Socket u (AiGenerate req resp)))) = rt_server rt"
  using assms(1)
  by (simp_all add: rt_step_Socket handle_AiGenerate ai_generate_refused[OF assms(2,3,4)] refused_def)

lemma handle_connected:
  assumes "socketRooms (rt_server rt) u \<noteq> None" and "\<not> (s = u \<and> ev = Disconnect)"
    and "(ev = Connect) = (socketRooms (rt_server rt) s = None)"
  shows "socketRooms (rt_server (fst (handle e rt s ev))) u \<noteq> None"
proof (cases "s = u")
  case False
  have "socketRooms (rt_server rt) s \<noteq> None \<or> ev = Connect" using assms(3) by auto
  from handle_sockets_other[OF _ this, of u e] False assms(1) show ?thesis by simp
next
  case True
  obtain rooms where rooms: "socketRooms (rt_server rt) s = Some rooms" using assms(1) True by auto
  show ?thesis
  proof (cases ev)
    case (JoinDocument d)
    from join_document_sockets[OF rooms, of d] show ?thesis
      using JoinDocument True by (simp add: handle_JoinDocument)
  next
    case (LeaveDocument d)
    then show ?thesis using True rooms
      by (simp add: handle_LeaveDocument leave_document_sockets socket_leave_def)
  next
    case Disconnect
    then show ?thesis using assms(2) True by simp
  next
    case Connect
    then show ?thesis using assms(3) rooms by simp
  next
    case (SendChanges d c)
    then show ?thesis using assms(1) by (simp add: handle_SendChanges)
  next
    case (RequestSync d)
    then show ?thesis using assms(1) by (simp add: handle_RequestSync)
  next
    case (SetUserIdentity d n c)
    then show ?thesis using assms(1) by (simp add: handle_def Let_def split_beta)
  next
    case (CursorMove d p sel)
    then show ?thesis using assms(1) by (simp add: handle_def Let_def split_beta)
  next
    case (AiGenerate req resp)
    then show ?thesis using assms(1) by (simp add: handle_AiGenerate)
  qed
qed

lemma handle_identified:
  assumes "userMetadata (rt_server rt) u \<noteq> None"
    and "\<not> (s = u \<and> ev = Disconnect)" and "\<forall>d. \<not> (s = u \<and> ev = LeaveDocument d)"
  shows "userMetadata (rt_server (fst (handle e rt s ev))) u \<noteq> None"
proof (cases ev)
  case (LeaveDocument d)
  then show ?thesis using assms by (auto simp: handle_LeaveDocument)
next
  case Disconnect
  then show ?thesis using assms by (auto simp: handle_Disconnect)
next
  case (JoinDocument d)
  then show ?thesis using assms(1) by (simp add: handle_JoinDocument)
next
  case (SetUserIdentity d n c)
  then show ?thesis using assms(1) by (simp add: handle_def Let_def set_user_identity_def)
qed (simp_all add: handle_def Let_def split_beta assms(1))

lemma ai_generate_bucket_other:
  assumes "aiService srv = Some ai" and "s \<noteq> u"
  shows "\<exists>ai'. aiService (fst (ai_generate e srv s req resp)) = Some ai' \<and> rateLimits ai' u = rateLimits ai u"
proof (cases "userMetadata srv s")
  case None
  then show ?thesis using assms(1) by (simp add: ai_generate_def)
next
  case (Some m)
  obtain ok ai1 where c: "checkRateLimit (now e) ai s = (ok, ai1)" by (cases "checkRateLimit (now e) ai s")
  have "rateLimits ai1 u = rateLimits ai u" using checkRateLimit_other[OF assms(2), of "now e" ai] c by simp
  then show ?thesis using Some assms(1) c
    by (cases ok) (auto simp: ai_generate_def generateCodeStream_def split: sum.splits)
qed

lemma handle_bucket:
  assumes "aiService (rt_server rt) = Some ai" and "\<not> is_ai_request u (Socket s ev)"
  shows "\<exists>ai'. aiService (rt_server (fst (handle e rt s ev))) = Some ai' \<and> rateLimits ai' u = rateLimits ai u"
proof (cases ev)
  case (AiGenerate req resp)
  then have "s \<noteq> u" using assms(2) by simp
  from ai_generate_bucket_other[OF assms(1) this] show ?thesis
    using AiGenerate by (simp add: handle_AiGenerate)
next
  case (LeaveDocument d)
  then show ?thesis using assms(1) by (simp add: handle_LeaveDocument)
next
  case Disconnect
  then show ?thesis using assms(1) by (simp add: handle_Disconnect)
next
  case (JoinDocument d)
  then show ?thesis using assms(1) by (simp add: handle_JoinDocument)
next
  case (SetUserIdentity d n c)
  then show ?thesis using assms(1) by (simp add: handle_def Let_def set_user_identity_def)
qed (simp_all add: handle_def Let_def split_beta assms(1))


lemma in_window_Socket:
  "in_window u r (e, Socket s ev) \<Longrightarrow>
   now e \<le> r \<and> \<not> (s = u \<and> ev = Disconnect) \<and> (\<forall>d. \<not> (s = u \<and> ev = LeaveDocument d))"
  by (cases ev) (simp_all add: in_window_def)

lemma is_ai_request_iff:
  "is_ai_request u x \<longleftrightarrow> (\<exists>req resp. x = Socket u (AiGenerate req resp))"
  by (cases "(u, x)" rule: is_ai_request.cases) auto

lemma ai_outcomes_request:
  "ai_outcomes u rt ((e, Socket u (AiGenerate req resp)) # xs) =
     \<lparr>out_request = req, out_response = resp, out_before = rt,
      out_after = fst (rt_step e rt (Socket u (AiGenerate req resp))),
      out_effects = snd (rt_step e rt (Socket u (AiGenerate req resp)))\<rparr>
     # ai_outcomes u (fst (rt_step e rt (Socket u (AiGenerate req resp)))) xs"
  by simp

lemma ai_outcomes_other:
  "\<not> is_ai_request u x \<Longrightarrow> ai_outcomes u rt ((e, x) # xs) = ai_outcomes u (fst (rt_step e rt x)) xs"
  by (cases "(u, x)" rule: is_ai_request.cases) auto

lemma rt_run_fst_Cons:
  "fst (rt_run rt ((e, x) # xs)) = fst (rt_run (fst (rt_step e rt x)) xs)"
  by (simp add: split_beta)

lemma window_step:
  assumes conn: "socketRooms (rt_server rt) u \<noteq> None"
    and ident: "userMetadata (rt_server rt) u \<noteq> None"
    and svc: "aiService (rt_server rt) = Some ai"
    and bucket: "rateLimits ai u = Some \<lparr>count = c, resetTime = r\<rparr>"
    and inw: "in_window u r (e, x)"
  shows "socketRooms (rt_server (fst (rt_step e rt x))) u \<noteq> None"
    and "userMetadata (rt_server (fst (rt_step e rt x))) u \<noteq> None"
    and "\<exists>ai'. aiService (rt_server (fst (rt_step e rt x))) = Some ai' \<and>
           rateLimits ai' u = Some \<lparr>count = (if is_ai_request u x \<and> c < 10 then c + 1 else c), resetTime = r\<rparr>"
proof -
  have "socketRooms (rt_server (fst (rt_step e rt x))) u \<noteq> None
      \<and> userMetadata (rt_server (fst (rt_step e rt x))) u \<noteq> None
      \<and> (\<exists>ai'. aiService (rt_server (fst (rt_step e rt x))) = Some ai' \<and>
           rateLimits ai' u = Some \<lparr>count = (if is_ai_request u x \<and> c < 10 then c + 1 else c), resetTime = r\<rparr>)"
  proof (cases x)
    case (Socket s ev)
    note w = in_window_Socket[OF inw[unfolded Socket]]
    show ?thesis
    proof (cases "(ev = Connect) = (socketRooms (rt_server rt) s = None)")
      case False
      then have same: "rt_step e rt x = (rt, [])" using Socket by (auto simp: rt_step_def)
      have "\<not> is_ai_request u x" using False conn Socket by (auto simp: is_ai_request_iff)
      then show ?thesis using same conn ident svc bucket by simp
    next
      case True
      then have step: "rt_step e rt x = handle e rt s ev" using Socket by (simp add: rt_step_def)
      have A: "socketRooms (rt_server (fst (rt_step e rt x))) u \<noteq> None"
        unfolding step using handle_connected[OF conn _ True] w by blast
      have B: "userMetadata (rt_server (fst (rt_step e rt x))) u \<noteq> None"
        unfolding step using handle_identified[OF ident] w by blast
      show ?thesis
      proof (cases "is_ai_request u x")
        case False
        from handle_bucket[OF svc False[unfolded Socket], of e] show ?thesis
          using A B False bucket step by simp
      next
        case req: True
        then obtain req resp where x: "x = Socket u (AiGenerate req resp)"
          by (auto simp: is_ai_request_iff)
        have t: "now e \<le> r" using w by simp
        note ck = checkRateLimit_in_window[OF bucket t]
        show ?thesis
        proof (cases "c < 10")
          case True
          then have "checkRateLimit (now e) ai u =
              (True, ai\<lparr>rateLimits := (rateLimits ai)(u \<mapsto> \<lparr>count = c + 1, resetTime = r\<rparr>)\<rparr>)"
            using ck by simp
          from step_admitted(2)[OF conn ident svc this, of req resp] show ?thesis
            using A B req True x by simp
        next
          case False
          then have "checkRateLimit (now e) ai u = (False, ai)" using ck by simp
          from step_refused(2)[OF conn ident svc this, of req resp] show ?thesis
            using A B req False x svc bucket by simp
        qed
      qed
    qed
  next
    case (Resume i)
    then show ?thesis using conn ident svc bucket
      by (simp add: rt_step_def split_beta split: option.splits)
  next
    case (Continue i)
    then show ?thesis using conn ident svc bucket by (simp add: rt_step_Continue_server)
  next
    case Timer
    have "now e \<le> r" using inw by (simp add: in_window_def)
    from cleanupRateLimits_in_window[OF bucket this] show ?thesis
      using Timer conn ident svc by (simp add: rt_step_def)
  qed
  then show "socketRooms (rt_server (fst (rt_step e rt x))) u \<noteq> None"
    and "userMetadata (rt_server (fst (rt_step e rt x))) u \<noteq> None"
    and "\<exists>ai'. aiService (rt_server (fst (rt_step e rt x))) = Some ai' \<and>
           rateLimits ai' u = Some \<lparr>count = (if is_ai_request u x \<and> c < 10 then c + 1 else c), resetTime = r\<rparr>"
    by simp_all
qed

lemma window_run:
  assumes "socketRooms (rt_server rt) u \<noteq> None"
    and "userMetadata (rt_server rt) u \<noteq> None"
    and "aiService (rt_server rt) = Some ai"
    and "rateLimits ai u = Some \<lparr>count = c, resetTime = r\<rparr>"
    and "c \<le> 10"
    and "\<forall>p \<in> set evs. in_window u r p"
  shows "length (ai_outcomes u rt evs) = length (filter (\<lambda>q. is_ai_request u (snd q)) evs)
       \<and> (\<forall>i < length (ai_outcomes u rt evs).
            if i < 10 - c then served u (ai_outcomes u rt evs ! i)
            else refused u (ai_outcomes u rt evs ! i))
       \<and> socketRooms (rt_server (fst (rt_run rt evs))) u \<noteq> None
       \<and> userMetadata (rt_server (fst (rt_run rt evs))) u \<noteq> None
       \<and> (\<exists>ai'. aiService (rt_server (fst (rt_run rt evs))) = Some ai' \<and>
            rateLimits ai' u =
              Some \<lparr>count = min (c + length (filter (\<lambda>q. is_ai_request u (snd q)) evs)) 10, resetTime = r\<rparr>)"
  using assms
proof (induction evs arbitrary: rt ai c)
  case Nil
  then show ?case by simp
next
  case (Cons p evs)
  obtain e x where p: "p = (e, x)" by (cases p)
  have inw: "in_window u r (e, x)" and rest: "\<forall>p \<in> set evs. in_window u r p"
    using Cons.prems(6) p by simp_all
  let ?rt1 = "fst (rt_step e rt x)"
  note st = window_step[OF Cons.prems(1-4) inw]
  let ?c1 = "if is_ai_request u x \<and> c < 10 then c + 1 else c"
  obtain ai1 where svc1: "aiService (rt_server ?rt1) = Some ai1"
    and b1: "rateLimits ai1 u = Some \<lparr>count = ?c1, resetTime = r\<rparr>"
    using st(3) by blast
  have c1: "?c1 \<le> 10" using Cons.prems(5) by simp
  note ih = Cons.IH[OF st(1) st(2) svc1 b1 c1 rest]
  let ?n = "length (filter (\<lambda>q. is_ai_request u (snd q)) evs)"
  have A: "socketRooms (rt_server (fst (rt_run rt ((e, x) # evs)))) u \<noteq> None"
    and B: "userMetadata (rt_server (fst (rt_run rt ((e, x) # evs)))) u \<noteq> None"
    using ih unfolding rt_run_fst_Cons by simp_all
  have fin: "\<exists>ai'. aiService (rt_server (fst (rt_run rt ((e, x) # evs)))) = Some ai' \<and>
          rateLimits ai' u =
            Some \<lparr>count = min (c + length (filter (\<lambda>q. is_ai_request u (snd q)) ((e, x) # evs))) 10, resetTime = r\<rparr>"
  proof -
    obtain ai2 where s2: "aiService (rt_server (fst (rt_run ?rt1 evs))) = Some ai2"
      and b2: "rateLimits ai2 u = Some \<lparr>count = min (?c1 + ?n) 10, resetTime = r\<rparr>"
      using ih by blast
    have m: "min (?c1 + ?n) 10 = min (c + length (filter (\<lambda>q. is_ai_request u (snd q)) ((e, x) # evs))) 10"
      using Cons.prems(5) by auto
    show ?thesis unfolding rt_run_fst_Cons using s2 b2[unfolded m] by blast
  qed
  have "length (ai_outcomes u rt ((e, x) # evs)) = length (filter (\<lambda>q. is_ai_request u (snd q)) ((e, x) # evs))
      \<and> (\<forall>i < length (ai_outcomes u rt ((e, x) # evs)).
            if i < 10 - c then served u (ai_outcomes u rt ((e, x) # evs) ! i)
            else refused u (ai_outcomes u rt ((e, x) # evs) ! i))"
  proof (cases "is_ai_request u x")
    case False
    then have o: "ai_outcomes u rt ((e, x) # evs) = ai_outcomes u ?rt1 evs"
      by (rule ai_outcomes_other)
    show ?thesis using ih False unfolding o by simp
  next
    case True
    then obtain req resp where x: "x = Socket u (AiGenerate req resp)"
      by (auto simp: is_ai_request_iff)
    let ?o = "\<lparr>out_request = req, out_response = resp, out_before = rt,
               out_after = fst (rt_step e rt (Socket u (AiGenerate req resp))),
               out_effects = snd (rt_step e rt (Socket u (AiGenerate req resp)))\<rparr>"
    have o: "ai_outcomes u rt ((e, x) # evs) = ?o # ai_outcomes u ?rt1 evs"
      unfolding x by (rule ai_outcomes_request)
    have t: "now e \<le> r" using inw by (simp add: in_window_def)
    note ck = checkRateLimit_in_window[OF Cons.prems(4) t]
    have first: "if c < 10 then served u ?o else refused u ?o"
    proof (cases "c < 10")
      case True
      then have "checkRateLimit (now e) ai u =
          (True, ai\<lparr>rateLimits := (rateLimits ai)(u \<mapsto> \<lparr>count = c + 1, resetTime = r\<rparr>)\<rparr>)"
        using ck by simp
      from step_admitted(1)[OF Cons.prems(1-3) this, of req resp] True show ?thesis by simp
    next
      case False
      then have "checkRateLimit (now e) ai u = (False, ai)" using ck by simp
      from step_refused(1)[OF Cons.prems(1-3) this, of req resp] False show ?thesis by simp
    qed
    have len: "length (ai_outcomes u rt ((e, x) # evs)) = length (filter (\<lambda>q. is_ai_request u (snd q)) ((e, x) # evs))"
      using ih True unfolding o by simp
    have idx: "\<forall>i < length (ai_outcomes u rt ((e, x) # evs)).
            if i < 10 - c then served u (ai_outcomes u rt ((e, x) # evs) ! i)
            else refused u (ai_outcomes u rt ((e, x) # evs) ! i)"
    proof (intro allI impI)
      fix i assume i: "i < length (ai_outcomes u rt ((e, x) # evs))"
      show "if i < 10 - c then served u (ai_outcomes u rt ((e, x) # evs) ! i)
            else refused u (ai_outcomes u rt ((e, x) # evs) ! i)"
      proof (cases i)
        case 0
        then show ?thesis using first unfolding o by (cases "c < 10") simp_all
      next
        case (Suc j)
        then have j: "j < length (ai_outcomes u ?rt1 evs)" using i unfolding o by simp
        from ih[THEN conjunct2, THEN conjunct1, rule_format, OF j]
        have "if j < 10 - ?c1 then served u (ai_outcomes u ?rt1 evs ! j)
              else refused u (ai_outcomes u ?rt1 evs ! j)" .
        moreover have "(j < 10 - ?c1) = (Suc j < 10 - c)" using True by auto
        ultimately show ?thesis unfolding o Suc by simp
      qed
    qed
    show ?thesis using len idx by (rule conjI)
  qed
  then show ?case using A B fin unfolding p by (simp del: ai_outcomes.simps rt_run.simps filter.simps)
qed


lemma prompt_built:
  "code req \<noteq> NullArg \<and> code req \<noteq> OtherArg \<longrightarrow>
   (\<exists>prompt. buildPrompt (ai_generate_data req) = Inr prompt)"
  by (cases "code req") (simp_all add: buildPrompt_def ai_generate_data_def Let_def)

text \<open>
  C3. Let socket \<open>u\<close> be connected and identified, with the generation service up, and
  let an \<^verbatim>\<open>ai-generate\<close> of \<open>u\<close> at time \<open>t0\<close> find no bucket of \<open>u\<close>, or an expired
  one: it opens a window that lasts until \<open>t0 + 60000\<close>. Take any run of the event loop
  within that window in which \<open>u\<close> keeps its identity, whatever else the sockets do,
  whichever suspended handlers are resumed and whenever the cleanup timer fires. Then of
  the \<^verbatim>\<open>ai-generate\<close> events of \<open>u\<close>, the opening one included, the handler serves
  exactly the first ten: each calls the backend once with the prompt built from its data
  and is left streaming (or, if its \<open>code\<close> is no string, is left with the error of the
  prompt building, having used up its place). Every later one is refused: no backend
  call, no change of the bucket or of anything else in the module state, and the handler
  left with the rate-limit error, which it then emits as \<^verbatim>\<open>ai-error\<close> to the socket. At
  the end the bucket holds the number of requests, at most ten, and the end of the
  window. The first \<^verbatim>\<open>ai-generate\<close> of \<open>u\<close> after \<open>t0 + 60000\<close> is served and opens a
  fresh window with count one. For every request whose \<open>code\<close> is a string, or absent,
  the prompt is built, so that being served means that the generation is started.
\<close>

theorem rate_limit_window:
  assumes conn: "socketRooms (rt_server rt) u \<noteq> None"
    and ident: "userMetadata (rt_server rt) u \<noteq> None"
    and svc: "aiService (rt_server rt) = Some ai"
    and fresh: "case rateLimits ai u of None \<Rightarrow> True | Some l \<Rightarrow> now e0 > resetTime l"
    and inw: "\<forall>p \<in> set evs. in_window u (now e0 + 60000) p"
    and n: "n = length (filter (\<lambda>q. is_ai_request u (snd q)) evs)"
    and outs: "outs = ai_outcomes u rt ((e0, Socket u (AiGenerate req0 resp0)) # evs)"
    and fin: "rt' = fst (rt_run rt ((e0, Socket u (AiGenerate req0 resp0)) # evs))"
  shows "length outs = Suc n
       \<and> (\<forall>i < Suc n. if i < 10 then served u (outs ! i) else refused u (outs ! i))
       \<and> (\<exists>ai'. aiService (rt_server rt') = Some ai' \<and>
             rateLimits ai' u = Some \<lparr>count = min (Suc n) 10, resetTime = now e0 + 60000\<rparr>)
       \<and> socketRooms (rt_server rt') u \<noteq> None \<and> userMetadata (rt_server rt') u \<noteq> None
       \<and> (\<forall>g msg. gen_chunks g = [] \<and> gen_failure g = Some msg \<longrightarrow>
             ai_generate_resume g = ([Emit (ToSocket (gen_socket g)) (AiError msg)], None))
       \<and> (\<forall>e req resp. 10 \<le> Suc n \<and> now e \<le> now e0 + 60000 \<longrightarrow>
             refused u \<lparr>out_request = req, out_response = resp, out_before = rt',
                         out_after = fst (rt_step e rt' (Socket u (AiGenerate req resp))),
                         out_effects = snd (rt_step e rt' (Socket u (AiGenerate req resp)))\<rparr>)
       \<and> (\<forall>e req resp. now e > now e0 + 60000 \<longrightarrow>
             served u \<lparr>out_request = req, out_response = resp, out_before = rt',
                        out_after = fst (rt_step e rt' (Socket u (AiGenerate req resp))),
                        out_effects = snd (rt_step e rt' (Socket u (AiGenerate req resp)))\<rparr>
             \<and> (\<exists>ai'. aiService (rt_server (fst (rt_step e rt' (Socket u (AiGenerate req resp))))) = Some ai' \<and>
                   rateLimits ai' u = Some \<lparr>count = 1, resetTime = now e + 60000\<rparr>))
       \<and> (\<forall>req. code req \<noteq> NullArg \<and> code req \<noteq> OtherArg \<longrightarrow>
             (\<exists>prompt. buildPrompt (ai_generate_data req) = Inr prompt))"
proof -
  let ?x0 = "Socket u (AiGenerate req0 resp0)"
  let ?r = "now e0 + 60000"
  let ?ai1 = "ai\<lparr>rateLimits := (rateLimits ai)(u \<mapsto> \<lparr>count = 1, resetTime = ?r\<rparr>)\<rparr>"
  let ?rt1 = "fst (rt_step e0 rt ?x0)"
  let ?o0 = "\<lparr>out_request = req0, out_response = resp0, out_before = rt,
              out_after = fst (rt_step e0 rt ?x0), out_effects = snd (rt_step e0 rt ?x0)\<rparr>"
  have ck: "checkRateLimit (now e0) ai u = (True, ?ai1)" using fresh by (rule checkRateLimit_fresh)
  note first = step_admitted[OF conn ident svc ck, of req0 resp0]
  have conn1: "socketRooms (rt_server ?rt1) u \<noteq> None"
    and ident1: "userMetadata (rt_server ?rt1) u \<noteq> None"
    and svc1: "aiService (rt_server ?rt1) = Some ?ai1"
    using first(2) conn ident by simp_all
  have b1: "rateLimits ?ai1 u = Some \<lparr>count = 1, resetTime = ?r\<rparr>" by simp
  have le: "(1::nat) \<le> 10" by simp
  note run = window_run[OF conn1 ident1 svc1 b1 le inw]
  have o: "outs = ?o0 # ai_outcomes u ?rt1 evs" unfolding outs by (rule ai_outcomes_request)
  have rt': "rt' = fst (rt_run ?rt1 evs)" unfolding fin by (rule rt_run_fst_Cons)
  have len1: "length (ai_outcomes u ?rt1 evs) = n" using run n by simp
  have A: "length outs = Suc n" using len1 o by simp
  have B: "\<forall>i < Suc n. if i < 10 then served u (outs ! i) else refused u (outs ! i)"
  proof (intro allI impI)
    fix i assume i: "i < Suc n"
    show "if i < 10 then served u (outs ! i) else refused u (outs ! i)"
    proof (cases i)
      case 0
      then show ?thesis using first(1) o by simp
    next
      case (Suc j)
      then have j: "j < length (ai_outcomes u ?rt1 evs)" using i len1 by simp
      from run[THEN conjunct2, THEN conjunct1, rule_format, OF j]
      have "if j < 10 - 1 then served u (ai_outcomes u ?rt1 evs ! j)
            else refused u (ai_outcomes u ?rt1 evs ! j)" .
      moreover have "(j < 10 - 1) = (Suc j < 10)" by auto
      ultimately show ?thesis unfolding o Suc by simp
    qed
  qed
  obtain ai' where svc': "aiService (rt_server rt') = Some ai'"
    and b': "rateLimits ai' u = Some \<lparr>count = min (Suc n) 10, resetTime = ?r\<rparr>"
    using run n unfolding rt' by auto
  have conn': "socketRooms (rt_server rt') u \<noteq> None"
    and ident': "userMetadata (rt_server rt') u \<noteq> None"
    using run unfolding rt' by simp_all
  have C: "\<exists>ai'. aiService (rt_server rt') = Some ai' \<and>
             rateLimits ai' u = Some \<lparr>count = min (Suc n) 10, resetTime = ?r\<rparr>"
    using svc' b' by blast
  have D: "\<forall>g msg. gen_chunks g = [] \<and> gen_failure g = Some msg \<longrightarrow>
             ai_generate_resume g = ([Emit (ToSocket (gen_socket g)) (AiError msg)], None)"
    by (simp add: ai_generate_resume_def)
  have E: "\<forall>e req resp. 10 \<le> Suc n \<and> now e \<le> ?r \<longrightarrow>
             refused u \<lparr>out_request = req, out_response = resp, out_before = rt',
                         out_after = fst (rt_step e rt' (Socket u (AiGenerate req resp))),
                         out_effects = snd (rt_step e rt' (Socket u (AiGenerate req resp)))\<rparr>"
  proof (intro allI impI)
    fix e :: env and req :: ai_request and resp :: backend_response assume h: "10 \<le> Suc n \<and> now e \<le> ?r"
    then have "checkRateLimit (now e) ai' u = (False, ai')"
      using checkRateLimit_in_window[OF b', of "now e"] by simp
    from step_refused(1)[OF conn' ident' svc' this]
    show "refused u \<lparr>out_request = req, out_response = resp, out_before = rt',
                         out_after = fst (rt_step e rt' (Socket u (AiGenerate req resp))),
                         out_effects = snd (rt_step e rt' (Socket u (AiGenerate req resp)))\<rparr>" .
  qed
  have F: "\<forall>e req resp. now e > ?r \<longrightarrow>
             served u \<lparr>out_request = req, out_response = resp, out_before = rt',
                        out_after = fst (rt_step e rt' (Socket u (AiGenerate req resp))),
                        out_effects = snd (rt_step e rt' (Socket u (AiGenerate req resp)))\<rparr>
             \<and> (\<exists>ai''. aiService (rt_server (fst (rt_step e rt' (Socket u (AiGenerate req resp))))) = Some ai'' \<and>
                   rateLimits ai'' u = Some \<lparr>count = 1, resetTime = now e + 60000\<rparr>)"
  proof (intro allI impI)
    fix e :: env and req :: ai_request and resp :: backend_response assume h: "now e > ?r"
    have "case rateLimits ai' u of None \<Rightarrow> True | Some l \<Rightarrow> now e > resetTime l"
      using b' h by simp
    from step_admitted[OF conn' ident' svc' checkRateLimit_fresh[OF this], of req resp]
    show "served u \<lparr>out_request = req, out_response = resp, out_before = rt',
                        out_after = fst (rt_step e rt' (Socket u (AiGenerate req resp))),
                        out_effects = snd (rt_step e rt' (Socket u (AiGenerate req resp)))\<rparr>
             \<and> (\<exists>ai''. aiService (rt_server (fst (rt_step e rt' (Socket u (AiGenerate req resp))))) = Some ai'' \<and>
                   rateLimits ai'' u = Some \<lparr>count = 1, resetTime = now e + 60000\<rparr>)"
      by simp
  qed
  have G: "\<forall>req. code req \<noteq> NullArg \<and> code req \<noteq> OtherArg \<longrightarrow>
             (\<exists>prompt. buildPrompt (ai_generate_data req) = Inr prompt)"
    by (rule allI) (rule prompt_built)
  from A B C conn' ident' D E F G show ?thesis by (intro conjI)
qed

theorem rate_limit_window_witness:
  "length (ai_outcomes ''a'' sample_identified
     ((sample_env, Socket ''a'' (AiGenerate sample_request sample_response))
      # (sample_env, Timer)
      # replicate 10 (sample_env, Socket ''a'' (AiGenerate sample_request sample_response)))) = 11
   \<and> served ''a'' (ai_outcomes ''a'' sample_identified
     ((sample_env, Socket ''a'' (AiGenerate sample_request sample_response))
      # (sample_env, Timer)
      # replicate 10 (sample_env, Socket ''a'' (AiGenerate sample_request sample_response))) ! 9)
   \<and> refused ''a'' (ai_outcomes ''a'' sample_identified
     ((sample_env, Socket ''a'' (AiGenerate sample_request sample_response))
      # (sample_env, Timer)
      # replicate 10 (sample_env, Socket ''a'' (AiGenerate sample_request sample_response))) ! 10)"
proof -
  let ?q = "(sample_env, Socket ''a'' (AiGenerate sample_request sample_response))"
  let ?evs = "(sample_env, Timer) # replicate 10 ?q"
  have conn: "socketRooms (rt_server sample_identified) ''a'' \<noteq> None"
    and ident: "userMetadata (rt_server sample_identified) ''a'' \<noteq> None"
    and svc: "aiService (rt_server sample_identified) = Some \<lparr>rateLimits = Map.empty\<rparr>"
    by (simp_all add: sample_identified_def)
  have fresh: "case rateLimits \<lparr>rateLimits = Map.empty\<rparr> ''a'' of None \<Rightarrow> True
               | Some l \<Rightarrow> now sample_env > resetTime l"
    by simp
  have inw: "\<forall>p \<in> set ?evs. in_window ''a'' (now sample_env + 60000) p"
    by (simp add: in_window_def sample_env_def)
  have n: "10 = length (filter (\<lambda>q. is_ai_request ''a'' (snd q)) ?evs)" by simp
  note w = rate_limit_window[OF conn ident svc fresh inw n refl refl,
      where ?req0.0 = sample_request and ?resp0.0 = sample_response]
  have nine: "(9::nat) < Suc 10" and ten: "(10::nat) < Suc 10" by simp_all
  from w[THEN conjunct1] w[THEN conjunct2, THEN conjunct1, rule_format, OF nine]
    w[THEN conjunct2, THEN conjunct1, rule_format, OF ten]
  show ?thesis by simp
qed

section \<open>The heap of state objects\<close>

lemma socket_states [simp]:
  "documentStates (socket_leave s room srv) = documentStates srv"
  "documentStates (socket_join s room srv) = documentStates srv"
  by (simp_all add: socket_leave_def socket_join_def split: option.splits)

lemma leave_room_states [simp]: "documentStates (leave_room s room srv) = documentStates srv"
  by (auto simp: leave_room_def Let_def split: option.splits)

lemma leave_rooms_states [simp]: "documentStates (leave_rooms s rooms srv) = documentStates srv"
  by (induction rooms arbitrary: srv) auto

lemma track_user_states [simp]: "documentStates (track_user s d srv) = documentStates srv"
  by (simp add: track_user_def Let_def)

lemma join_document_states [simp]: "documentStates (fst (join_document srv s d)) = documentStates srv"
  by (simp add: join_document_state)

lemma set_user_identity_states [simp]:
  "documentStates (fst (set_user_identity srv s d u c)) = documentStates srv"
  "documentCache (fst (set_user_identity srv s d u c)) = documentCache srv"
  by (simp_all add: set_user_identity_def Let_def)

lemma ai_generate_states [simp]:
  "documentStates (fst (ai_generate e srv s req resp)) = documentStates srv"
  by (auto simp: ai_generate_def split: option.splits prod.splits)

lemma disconnect_states [simp]: "documentStates (fst (disconnect srv s)) = documentStates srv"
  by (simp add: disconnect_def split_beta)

lemma leave_document_states [simp]: "documentStates (fst (leave_document srv s d)) = documentStates srv"
  by (auto simp: leave_document_def Let_def split: option.splits)










lemma getDocumentState_cases:
  "getDocumentState srv d k =
     (case documentCache srv d of Some ref \<Rightarrow> Returned k (Some ref) | None \<Rightarrow> Fetching d k)"
  by (simp add: getDocumentState_def)





lemma in_set_removed: "k \<in> set (take i W @ drop (Suc i) W) \<Longrightarrow> k \<in> set W"
  by (auto dest: in_set_takeD in_set_dropD)





















section \<open>Last writer wins\<close>




section \<open>Resynchronisation\<close>






section \<open>Failed hydration\<close>

lemma join_document_not_found:
  assumes "documentCache srv d = None"
  shows "documentCache (fst (join_document srv s d)) d = None"
    and "snd (join_document srv s d) = Fetching d (JoinCaller s d)"
  using assms leave_rooms_cache_mono[OF assms(1), of s]
  by (simp_all add: join_document_def track_user_def getDocumentState_def Let_def split: option.splits)

lemma send_changes_not_found_run:
  assumes "documentCache (rt_server rt) d = None" and "documents e d = None"
    and "socketRooms (rt_server rt) s \<noteq> None"
  shows "rt_run rt [(e0, Socket s (SendChanges d c)),
                    (e, Continue (length (rt_waiting rt))),
                    (e2, Continue (length (rt_waiting rt)))]
         = (rt, [(rt_server rt, Emit (ToSocket s) (ErrorMsg ''Document not found''))])"
  using assms
  by (simp add: rt_step_Socket handle_SendChanges send_changes_miss rt_step_Continue_last
      fetch_not_found send_changes_hydrated_def)

lemma request_sync_not_found_run:
  assumes "documentCache (rt_server rt) d = None" and "documents e d = None"
    and "socketRooms (rt_server rt) s \<noteq> None"
  shows "rt_run rt [(e0, Socket s (RequestSync d)),
                    (e, Continue (length (rt_waiting rt))),
                    (e2, Continue (length (rt_waiting rt)))]
         = (rt, [])"
  using assms
  by (simp add: rt_step_Socket handle_RequestSync request_sync_miss rt_step_Continue_last
      fetch_not_found request_sync_resume_def)

text \<open>
  C5, as amended. Let document \<open>d\<close> be uncached when a handler asks for it, and absent
  from the store when the fetch completes. Each handler that finds \<open>d\<close> uncached changes
  nothing of the cache, emits nothing and waits for the fetch; the completed fetch hands
  the handler a null and changes nothing, in whatever state the server is by then. On the
  null, \<^verbatim>\<open>send-changes\<close> emits the \<^verbatim>\<open>error\<close> event with the message
  \<^verbatim>\<open>Document not found\<close> to the submitting socket, which no other socket receives, and
  ends with the state as it is; \<^verbatim>\<open>request-sync\<close> ends with no emit and the state as it
  is; \<^verbatim>\<open>join-document\<close>, which has put the socket into the user set of \<open>d\<close> before it
  waited, sends no document state and leaves the state as it is. Run with nothing in
  between, a \<^verbatim>\<open>send-changes\<close> of a connected socket therefore emits just the error and
  leaves the whole process as it was, and a \<^verbatim>\<open>request-sync\<close> emits nothing and leaves
  the whole process as it was.
\<close>

theorem hydration_not_found:
  assumes "documentCache srv d = None" and "documents e d = None"
  shows "send_changes e0 srv s d c = (srv, [], Fetching d (SendCaller s d c))
       \<and> request_sync srv s d = Fetching d (SyncCaller s d)
       \<and> snd (join_document srv s d) = Fetching d (JoinCaller s d)
       \<and> documentCache (fst (join_document srv s d)) d = None
       \<and> (\<exists>us. map_of (documentUsers (fst (join_document srv s d))) d = Some us \<and> s \<in> set us)
       \<and> continue_suspended e srv1 (Fetching d k) = (srv1, [], Some (Returned k None))
       \<and> continue_suspended e2 srv2 (Returned (SendCaller s d c) None)
           = (srv2, [Emit (ToSocket s) (ErrorMsg ''Document not found'')], None)
       \<and> (\<forall>r. receives srv2 (ToSocket s) r \<longrightarrow> r = s)
       \<and> continue_suspended e2 srv2 (Returned (SyncCaller s d) None) = (srv2, [], None)
       \<and> fst (continue_suspended e2 srv2 (Returned (JoinCaller s d) None)) = srv2
       \<and> snd (snd (continue_suspended e2 srv2 (Returned (JoinCaller s d) None))) = None
       \<and> (\<forall>t c' v. Emit t (DocumentState c' v)
                     \<notin> set (fst (snd (continue_suspended e2 srv2 (Returned (JoinCaller s d) None)))))
       \<and> (\<forall>rt. rt_server rt = srv \<and> socketRooms srv s \<noteq> None \<longrightarrow>
             rt_run rt [(e0, Socket s (SendChanges d c)),
                        (e, Continue (length (rt_waiting rt))),
                        (e2, Continue (length (rt_waiting rt)))]
               = (rt, [(srv, Emit (ToSocket s) (ErrorMsg ''Document not found''))])
           \<and> rt_run rt [(e0, Socket s (RequestSync d)),
                        (e, Continue (length (rt_waiting rt))),
                        (e2, Continue (length (rt_waiting rt)))]
               = (rt, []))"
proof -
  have A: "send_changes e0 srv s d c = (srv, [], Fetching d (SendCaller s d c))"
    using assms(1) by (rule send_changes_miss)
  have B: "request_sync srv s d = Fetching d (SyncCaller s d)"
    using assms(1) by (rule request_sync_miss)
  have C: "\<exists>us. map_of (documentUsers (fst (join_document srv s d))) d = Some us \<and> s \<in> set us"
    by (simp add: join_document_state track_user_users)
  have D: "continue_suspended e srv1 (Fetching d k) = (srv1, [], Some (Returned k None))"
    using assms(2) by (rule fetch_not_found)
  have E: "continue_suspended e2 srv2 (Returned (SendCaller s d c) None)
           = (srv2, [Emit (ToSocket s) (ErrorMsg ''Document not found'')], None)"
    by (simp add: send_changes_hydrated_def)
  have F: "\<forall>r. receives srv2 (ToSocket s) r \<longrightarrow> r = s"
    by simp
  have G: "continue_suspended e2 srv2 (Returned (SyncCaller s d) None) = (srv2, [], None)"
    by (simp add: request_sync_resume_def)
  have H: "\<forall>t c' v. Emit t (DocumentState c' v)
                     \<notin> set (fst (snd (continue_suspended e2 srv2 (Returned (JoinCaller s d) None))))"
    by (simp add: join_document_resume_def split: option.splits)
  have I: "\<forall>rt. rt_server rt = srv \<and> socketRooms srv s \<noteq> None \<longrightarrow>
             rt_run rt [(e0, Socket s (SendChanges d c)),
                        (e, Continue (length (rt_waiting rt))),
                        (e2, Continue (length (rt_waiting rt)))]
               = (rt, [(srv, Emit (ToSocket s) (ErrorMsg ''Document not found''))])
           \<and> rt_run rt [(e0, Socket s (RequestSync d)),
                        (e, Continue (length (rt_waiting rt))),
                        (e2, Continue (length (rt_waiting rt)))]
               = (rt, [])"
    using send_changes_not_found_run[OF _ assms(2), of _ s e0 c e2]
      request_sync_not_found_run[OF _ assms(2), of _ s e0 e2] assms(1)
    by (intro allI impI conjI) simp_all
  show ?thesis
    using A B C D E F G H I join_document_not_found[OF assms(1), of s]
    by simp
qed

theorem hydration_not_found_witness:
  "rt_run (fst (rt_step sample_env (init_runtime True) (Socket ''a'' Connect)))
     [(sample_env, Socket ''a'' (SendChanges ''nodoc'' ''hello'')),
      (sample_env, Continue 0),
      (sample_env, Continue 0)]
   = (fst (rt_step sample_env (init_runtime True) (Socket ''a'' Connect)),
      [(rt_server (fst (rt_step sample_env (init_runtime True) (Socket ''a'' Connect))),
        Emit (ToSocket ''a'') (ErrorMsg ''Document not found''))])"
proof -
  let ?rt = "fst (rt_step sample_env (init_runtime True) (Socket ''a'' Connect))"
  have c: "documentCache (rt_server ?rt) ''nodoc'' = None"
    by (simp add: rt_step_def handle_def init_runtime_def init_server_def)
  have s: "documents sample_env ''nodoc'' = None" by (simp add: sample_env_def)
  have k: "socketRooms (rt_server ?rt) ''a'' \<noteq> None"
    by (simp add: rt_step_def handle_def init_runtime_def init_server_def)
  have w: "length (rt_waiting ?rt) = 0"
    by (simp add: rt_step_def handle_def init_runtime_def init_server_def)
  note h = hydration_not_found[OF c s, where s = "''a''" and c = "''hello''" and ?e0.0 = sample_env
      and ?e2.0 = sample_env]
  have "rt_run ?rt [(sample_env, Socket ''a'' (SendChanges ''nodoc'' ''hello'')),
                    (sample_env, Continue (length (rt_waiting ?rt))),
                    (sample_env, Continue (length (rt_waiting ?rt)))]
        = (?rt, [(rt_server ?rt, Emit (ToSocket ''a'') (ErrorMsg ''Document not found''))])"
    using h k by blast
  then show ?thesis unfolding w .
qed

text \<open>
  C5 as stated fails for \<^verbatim>\<open>request-sync\<close>: a connected socket asks for a document that
  is neither cached nor stored, and when the handler has run to its end no event at all
  has been emitted and nothing has changed.
\<close>

theorem request_sync_not_found_counterexample:
  "documentCache ((init_server True)\<lparr>socketRooms := [''a'' \<mapsto> [''a'']]\<rparr>) ''nodoc'' = None
   \<and> documents sample_env ''nodoc'' = None
   \<and> rt_run
        \<lparr>rt_server = (init_server True)\<lparr>socketRooms := [''a'' \<mapsto> [''a'']]\<rparr>, rt_pending = [], rt_waiting = []\<rparr>
        [(sample_env, Socket ''a'' (RequestSync ''nodoc'')), (sample_env, Continue 0), (sample_env, Continue 0)]
      = (\<lparr>rt_server = (init_server True)\<lparr>socketRooms := [''a'' \<mapsto> [''a'']]\<rparr>, rt_pending = [], rt_waiting = []\<rparr>, [])"
  by (simp add: init_server_def sample_env_def rt_step_def handle_def request_sync_def getDocumentState_def
      continue_Fetching getDocumentState_resume_def request_sync_resume_def)

section \<open>Cursor relay\<close>

text \<open>
  C8, as amended. A \<^verbatim>\<open>cursor-move\<close> event of a socket that has registered an identity
  emits one \<^verbatim>\<open>cursor-update\<close>, carrying the sender's id, name and colour with the
  position and selection, which is received by exactly the sockets in the room other than
  the sender. A \<^verbatim>\<open>cursor-move\<close> of a socket without a registered identity emits
  nothing. In both cases the server state is unchanged, so nothing of the cursor is stored.
\<close>

theorem cursor_move_relay:
  "(\<forall>metadata. userMetadata srv s = Some metadata \<longrightarrow>
      cursor_move srv s d position selection =
        (srv, [Emit (ToRoomExcept d s)
                 (CursorUpdate s (username metadata) (color metadata) position selection)]))
   \<and> (userMetadata srv s = None \<longrightarrow> cursor_move srv s d position selection = (srv, []))
   \<and> (\<forall>r. receives srv (ToRoomExcept d s) r \<longleftrightarrow>
            r \<noteq> s \<and> (\<exists>rooms. socketRooms srv r = Some rooms \<and> d \<in> set rooms))"
  by (auto simp: cursor_move_def split: option.splits)

theorem cursor_move_relay_witness:
  "cursor_move sample_room ''b'' ''doc'' ''{line:1}'' ''null'' =
     (sample_room, [Emit (ToRoomExcept ''doc'' ''b'') (CursorUpdate ''b'' ''Bo'' ''red'' ''{line:1}'' ''null'')])
   \<and> receives sample_room (ToRoomExcept ''doc'' ''b'') ''a''
   \<and> \<not> receives sample_room (ToRoomExcept ''doc'' ''b'') ''b''"
proof -
  have m: "userMetadata sample_room ''b'' = Some \<lparr>username = ''Bo'', color = ''red'', documentId = ''doc''\<rparr>"
    by (simp add: sample_room_def)
  have a: "socketRooms sample_room ''a'' = Some [''a'', ''doc'']" by (simp add: sample_room_def)
  note r = cursor_move_relay[where srv = sample_room and s = "''b''" and d = "''doc''"
      and position = "''{line:1}''" and selection = "''null''"]
  from r[THEN conjunct1, rule_format, OF m] r[THEN conjunct2, THEN conjunct2] a
  show ?thesis by simp
qed

text \<open>
  C8 as stated fails for a room member that has not registered an identity: sockets
  \<open>a\<close> and \<open>b\<close> are both in the room of \<^verbatim>\<open>doc\<close>, and a cursor move of \<open>a\<close> is
  relayed to nobody.
\<close>

theorem cursor_move_counterexample:
  "receives sample_room (ToRoom ''doc'') ''a'' \<and> receives sample_room (ToRoom ''doc'') ''b''
   \<and> ''doc'' \<in> fst ` set (documentUsers sample_room)
   \<and> cursor_move sample_room ''a'' ''doc'' ''{line:1}'' ''null'' = (sample_room, [])"
  by (simp add: sample_room_def cursor_move_def)

section \<open>Generation requests\<close>

text \<open>
  C9. An \<^verbatim>\<open>ai-generate\<close> event of a connected socket that has registered no identity
  is answered by \<^verbatim>\<open>ai-error\<close> with the message \<^verbatim>\<open>User not authenticated\<close> and nothing
  else: the whole process state, rate-limit buckets and pending streams included, is as
  before, and the backend is not called.
\<close>

theorem ai_generate_unauthenticated:
  assumes "socketRooms (rt_server rt) socketId \<noteq> None"
    and "userMetadata (rt_server rt) socketId = None"
  shows "rt_step e rt (Socket socketId (AiGenerate req resp)) =
           (rt, [Emit (ToSocket socketId) (AiError ''User not authenticated'')])"
  using assms by (simp add: rt_step_def handle_def ai_generate_def)

theorem ai_generate_unauthenticated_witness:
  "rt_step sample_env
     \<lparr>rt_server = (init_server True)\<lparr>socketRooms := [''a'' \<mapsto> [''a'']]\<rparr>, rt_pending = [], rt_waiting = []\<rparr>
     (Socket ''a'' (AiGenerate sample_request sample_response)) =
   (\<lparr>rt_server = (init_server True)\<lparr>socketRooms := [''a'' \<mapsto> [''a'']]\<rparr>, rt_pending = [], rt_waiting = []\<rparr>,
    [Emit (ToSocket ''a'') (AiError ''User not authenticated'')])"
  using ai_generate_unauthenticated[where socketId = "''a''" and e = sample_env
      and req = sample_request and resp = sample_response
      and rt = "\<lparr>rt_server = (init_server True)\<lparr>socketRooms := [''a'' \<mapsto> [''a'']]\<rparr>, rt_pending = [], rt_waiting = []\<rparr>"]
  by (simp add: init_server_def)

section \<open>Rooms are never empty\<close>



section \<open>The broadcast after an edit\<close>






section \<open>Disconnect cleanup\<close>

text \<open>
  C4, as amended. After a connected socket disconnects, in any reachable state, its
  identity entry is gone, socket.io has no rooms for it, and no room's user set contains
  it; a room of which it was the only member has lost its registry entry and the cached
  state of its document. The rate-limit buckets are exactly as before the disconnect: the
  bucket of the socket is removed only by the periodic cleanup, and only once the clock has
  passed the bucket's reset time.
\<close>

theorem disconnect_cleanup:
  assumes run: "rt_run (init_runtime k) evs = (rt, tr)"
    and conn: "socketRooms (rt_server rt) s \<noteq> None"
    and step: "rt_step e rt (Socket s Disconnect) = (rt', effs)"
  shows "userMetadata (rt_server rt') s = None
       \<and> socketRooms (rt_server rt') s = None
       \<and> (\<forall>p \<in> set (documentUsers (rt_server rt')). s \<notin> set (snd p))
       \<and> (\<forall>d us. map_of (documentUsers (rt_server rt)) d = Some us \<and> set us = {s}
              \<longrightarrow> d \<notin> fst ` set (documentUsers (rt_server rt')) \<and> documentCache (rt_server rt') d = None)
       \<and> aiService (rt_server rt') = aiService (rt_server rt)
       \<and> (\<forall>e' ai l. aiService (rt_server rt') = Some ai \<and> rateLimits ai s = Some l \<longrightarrow>
              (\<exists>ai'. aiService (rt_server (fst (rt_step e' rt' Timer))) = Some ai'
                     \<and> rateLimits ai' s = (if now e' > resetTime l then None else Some l)))"
proof -
  let ?srv = "rt_server rt"
  let ?srvd = "?srv\<lparr>socketRooms := (socketRooms ?srv)(s := None)\<rparr>"
  have st: "rt_server rt' = fst (disconnect ?srvd s)"
    using step conn by (auto simp: rt_step_def handle_Disconnect)
  have A: "userMetadata (rt_server rt') s = None" "socketRooms (rt_server rt') s = None"
      "aiService (rt_server rt') = aiService ?srv"
    using st by simp_all
  have B: "\<forall>p \<in> set (documentUsers (rt_server rt')). s \<notin> set (snd p)"
    using st disconnect_removed[of _ ?srvd s] by auto
  have C: "\<forall>d us. map_of (documentUsers ?srv) d = Some us \<and> set us = {s}
              \<longrightarrow> d \<notin> fst ` set (documentUsers (rt_server rt')) \<and> documentCache (rt_server rt') d = None"
  proof (intro allI impI)
    fix d us
    assume h: "map_of (documentUsers ?srv) d = Some us \<and> set us = {s}"
    have rt': "rt' = fst (rt_step e rt (Socket s Disconnect))" using step by simp
    show "d \<notin> fst ` set (documentUsers (rt_server rt')) \<and> documentCache (rt_server rt') d = None"
      unfolding rt' by (rule step_sole_member[OF reachable_registry_ok[OF run] conn, of d us]) (use h in simp_all)
  qed
  have T: "\<forall>e' ai l. aiService (rt_server rt') = Some ai \<and> rateLimits ai s = Some l \<longrightarrow>
              (\<exists>ai'. aiService (rt_server (fst (rt_step e' rt' Timer))) = Some ai'
                     \<and> rateLimits ai' s = (if now e' > resetTime l then None else Some l))"
    by (auto simp: rt_step_def cleanupRateLimits_def)
  show ?thesis by (intro conjI A B C T)
qed

theorem disconnect_cleanup_witness:
  "userMetadata (rt_server (fst (rt_step sample_env sample_streaming (Socket ''a'' Disconnect)))) ''a'' = None
   \<and> ''doc'' \<notin> fst ` set (documentUsers (rt_server (fst (rt_step sample_env sample_streaming (Socket ''a'' Disconnect)))))
   \<and> documentCache (rt_server (fst (rt_step sample_env sample_streaming (Socket ''a'' Disconnect)))) ''doc'' = None"
proof -
  have step: "rt_step sample_env sample_streaming (Socket ''a'' Disconnect) =
      (fst (rt_step sample_env sample_streaming (Socket ''a'' Disconnect)),
       snd (rt_step sample_env sample_streaming (Socket ''a'' Disconnect)))"
    by simp
  have conn: "socketRooms (rt_server sample_streaming) ''a'' \<noteq> None"
    by (simp add: sample_streaming_def)
  have h: "map_of (documentUsers (rt_server sample_streaming)) ''doc'' = Some [''a''] \<and> set [''a''] = {''a''}"
    by (simp add: sample_streaming_def)
  note r = disconnect_cleanup[OF sample_streaming_reached conn step]
  have a: "userMetadata (rt_server (fst (rt_step sample_env sample_streaming (Socket ''a'' Disconnect)))) ''a'' = None"
    by (rule r[THEN conjunct1])
  have b: "''doc'' \<notin> fst ` set (documentUsers (rt_server (fst (rt_step sample_env sample_streaming (Socket ''a'' Disconnect)))))
   \<and> documentCache (rt_server (fst (rt_step sample_env sample_streaming (Socket ''a'' Disconnect)))) ''doc'' = None"
    by (rule r[THEN conjunct2, THEN conjunct2, THEN conjunct2, THEN conjunct1, rule_format, of "''doc''" "[''a'']"])
       (use h in simp)
  show ?thesis using a b by (rule conjI)
qed

text \<open>
  C4 as stated fails for the rate-limit bucket: socket \<open>a\<close> has asked for one generation,
  and after it disconnects its bucket is still there.
\<close>

theorem disconnect_keeps_bucket_counterexample:
  "(case aiService (rt_server (fst (rt_step sample_env sample_streaming (Socket ''a'' Disconnect)))) of
      None \<Rightarrow> None
    | Some ai \<Rightarrow> rateLimits ai ''a'')
   = Some \<lparr>count = 1, resetTime = 60000\<rparr>"
  by (simp add: sample_disconnect)

section \<open>Disconnecting during a generation stream\<close>

text \<open>
  C7, as amended. Let a connected socket disconnect while an \<^verbatim>\<open>ai-generate\<close> handler
  that serves it still has chunks to come. The disconnect leaves the suspended handlers
  as they are: the stream is not cancelled, and when its next chunk arrives the handler
  still emits it as \<^verbatim>\<open>ai-chunk\<close> on the closed socket. Nothing is delivered to the socket
  any more, neither by the disconnect step nor by any later step, because socket.io writes
  no packet to a socket whose connection is closed (a socket id is not connected twice).
\<close>

theorem disconnect_mid_stream:
  assumes conn: "socketRooms (rt_server rt) s \<noteq> None"
    and stream: "i < length (rt_pending rt)" "gen_socket (rt_pending rt ! i) = s"
      "gen_chunks (rt_pending rt ! i) = c # cs"
    and disc: "rt_step e rt (Socket s Disconnect) = (rt1, effs)"
    and later: "\<forall>p \<in> set evs. snd p \<noteq> Socket s Connect"
  shows "rt_pending rt1 = rt_pending rt
       \<and> snd (rt_step e' rt1 (Resume i)) = [Emit (ToSocket s) (AiChunk c)]
       \<and> deliveries s (map (Pair (rt_server rt1)) effs) = []
       \<and> deliveries s (snd (rt_run rt1 evs)) = []"
proof -
  have rt1: "rt1 = fst (rt_step e rt (Socket s Disconnect))" and effs: "effs = snd (rt_step e rt (Socket s Disconnect))"
    using disc by simp_all
  have P: "rt_pending rt1 = rt_pending rt" unfolding rt1 by (rule rt_step_Disconnect_pending)
  have S: "socketRooms (rt_server rt1) s = None"
    using conn unfolding rt1 by (simp add: rt_step_def handle_Disconnect)
  have R: "snd (rt_step e' rt1 (Resume i)) = [Emit (ToSocket s) (AiChunk c)]"
    using rt_step_Resume_chunk[of i rt1 c cs e'] stream P by simp
  show ?thesis
    using P R deliveries_disconnected[OF S] rt_run_disconnected[OF S later] by simp
qed

theorem disconnect_mid_stream_witness:
  "snd (rt_step sample_env (fst (rt_step sample_env sample_streaming (Socket ''a'' Disconnect))) (Resume 0))
     = [Emit (ToSocket ''a'') (AiChunk ''b'')]
   \<and> deliveries ''a''
       (snd (rt_run (fst (rt_step sample_env sample_streaming (Socket ''a'' Disconnect)))
          [(sample_env, Resume 0), (sample_env, Resume 0)])) = []"
proof -
  have conn: "socketRooms (rt_server sample_streaming) ''a'' \<noteq> None"
    by (simp add: sample_streaming_def)
  have stream: "0 < length (rt_pending sample_streaming)"
      "gen_socket (rt_pending sample_streaming ! 0) = ''a''"
      "gen_chunks (rt_pending sample_streaming ! 0) = ''b'' # []"
    by (simp_all add: sample_streaming_def)
  have disc: "rt_step sample_env sample_streaming (Socket ''a'' Disconnect) =
      (fst (rt_step sample_env sample_streaming (Socket ''a'' Disconnect)),
       snd (rt_step sample_env sample_streaming (Socket ''a'' Disconnect)))"
    by simp
  have later: "\<forall>p \<in> set [(sample_env, Resume 0), (sample_env, Resume 0)]. snd p \<noteq> Socket ''a'' Connect"
    by simp
  from disconnect_mid_stream[OF conn stream disc later, of sample_env] show ?thesis by simp
qed

text \<open>
  C7 as stated fails for the cancellation: after socket \<open>a\<close> has disconnected in the
  middle of its stream, the handler is still waiting for the rest of the stream, and the
  next chunk is emitted as before.
\<close>

theorem disconnect_mid_stream_counterexample:
  "rt_pending (fst (rt_step sample_env sample_streaming (Socket ''a'' Disconnect)))
     = [\<lparr>gen_socket = ''a'', gen_chunks = [''b''], gen_failure = None\<rparr>]
   \<and> snd (rt_step sample_env (fst (rt_step sample_env sample_streaming (Socket ''a'' Disconnect))) (Resume 0))
     = [Emit (ToSocket ''a'') (AiChunk ''b'')]"
proof -
  have "snd (rt_step sample_env
          \<lparr>rt_server =
             \<lparr>documentCache = Map.empty,
              documentStates = [\<lparr>content = ''text'', lastModified = 0, version = 1\<rparr>],
              documentUsers = [],
              userMetadata = Map.empty,
              aiService = Some \<lparr>rateLimits = [''a'' \<mapsto> \<lparr>count = 1, resetTime = 60000\<rparr>]\<rparr>,
              socketRooms = Map.empty\<rparr>,
           rt_pending = [\<lparr>gen_socket = ''a'', gen_chunks = [''b''], gen_failure = None\<rparr>],
           rt_waiting = []\<rparr>
          (Resume 0))
        = [Emit (ToSocket ''a'') (AiChunk ''b'')]"
    by (simp add: rt_step_def ai_generate_resume_def)
  then show ?thesis by (simp add: sample_disconnect)
qed

end
